theory Spec2Isabelle
  imports Main "HOL-Library.Char_ord" "HOL-Library.List_Lexorder" "HOL-Library.Multiset"
begin

section \<open>Data model (types/schemas)\<close>

text \<open>
  The zod schemas of the repository, as datatypes and records. Optional fields are
  \<open>option\<close>s (\<open>None\<close> is JavaScript's \<open>undefined\<close>). Field names that clash
  with a HOL constant or an Isar keyword (\<open>id\<close>, \<open>type\<close>, \<open>from\<close>, \<open>instance\<close>) or
  that occur in several schemas carry the schema's name as a prefix. The opaque
  \<open>attributes\<close> map of an event is never read by the engine and is left out.
\<close>

datatype SourceSystem = SysGithub | SysKubernetes | SysOtel | SysIam | SysFeatureFlag | SysCustom

record Source =
  source_system :: SourceSystem
  source_adapter :: string
  source_instance :: "string option"

datatype ActorType = ActorUser | ActorService | ActorSystem

record Actor =
  actor_type :: ActorType
  actor_id :: string
  actor_display :: string
  actor_org :: "string option"

datatype TargetType =
  TargetService | TargetEnv | TargetResource | TargetModel | TargetFeature | TargetUser

record Target =
  target_type :: TargetType
  target_id :: string
  target_display :: string
  target_env :: "string option"
  target_region :: "string option"

datatype EventKind =
  DEPLOYMENT | FEATURE_FLAG | MODEL_DECISION | ACCESS_GRANT | ACCESS_REVOKE | INCIDENT
  | PR_MERGED | PR_OPENED | PR_APPROVED | CONFIG_CHANGE | TRACE | CUSTOM

text \<open>The string value of each member of the enum (the code tests a prefix of it).\<close>

fun kindName :: "EventKind \<Rightarrow> string" where
  "kindName DEPLOYMENT = ''DEPLOYMENT''"
| "kindName FEATURE_FLAG = ''FEATURE_FLAG''"
| "kindName MODEL_DECISION = ''MODEL_DECISION''"
| "kindName ACCESS_GRANT = ''ACCESS_GRANT''"
| "kindName ACCESS_REVOKE = ''ACCESS_REVOKE''"
| "kindName INCIDENT = ''INCIDENT''"
| "kindName PR_MERGED = ''PR_MERGED''"
| "kindName PR_OPENED = ''PR_OPENED''"
| "kindName PR_APPROVED = ''PR_APPROVED''"
| "kindName CONFIG_CHANGE = ''CONFIG_CHANGE''"
| "kindName TRACE = ''TRACE''"
| "kindName CUSTOM = ''CUSTOM''"

datatype Outcome = SUCCESS | FAILURE | UNKNOWN | PENDING

record Correlation =
  trace_id :: "string option"
  commit_sha :: "string option"
  pr_number :: "string option"
  ticket_id :: "string option"
  deployment_id :: "string option"
  parent_event_id :: "string option"

record Evidence =
  raw_ref :: string
  hash :: string

record NormalizedEvent =
  event_id :: string
  time :: string
  source :: Source
  kind :: EventKind
  actor :: Actor
  target :: Target
  action :: string
  outcome :: Outcome
  correlation :: "Correlation option"
  evidence :: "Evidence option"

datatype EpisodeType =
  DeploymentEpisode | FlagEpisode | AccessEpisode | IncidentEpisode | PRMergeEpisode
  | CustomEpisode

datatype EdgeType = CAUSES | TRIGGERS | RELATES_TO | FOLLOWS

record GraphEdge =
  edge_from :: string
  edge_to :: string
  edge_type :: EdgeType

record EpisodeGraph =
  nodes :: "string list"
  edges :: "GraphEdge list"

record Episode =
  episode_id :: string
  episode_type :: EpisodeType
  start_time :: string
  end_time :: string
  primary_actor :: "Actor option"
  primary_target :: "Target option"
  events :: "string list"
  graph :: EpisodeGraph

section \<open>JavaScript primitives used by the engine\<close>

text \<open>
  Truthiness of an optional string: \<open>undefined\<close> and the empty string are falsy.
\<close>

fun truthy :: "string option \<Rightarrow> bool" where
  "truthy None = False"
| "truthy (Some s) = (s \<noteq> [])"

text \<open>Optional chaining \<open>event.correlation?.field\<close>.\<close>

definition corr :: "(Correlation \<Rightarrow> string option) \<Rightarrow> NormalizedEvent \<Rightarrow> string option" where
  "corr field event = (case correlation event of None \<Rightarrow> None | Some c \<Rightarrow> field c)"

text \<open>An optional string inside a template literal: \<open>undefined\<close> prints as its name.\<close>

fun interpolate :: "string option \<Rightarrow> string" where
  "interpolate None = ''undefined''"
| "interpolate (Some s) = s"

definition startsWith :: "string \<Rightarrow> string \<Rightarrow> bool" where
  "startsWith s p = (take (length p) s = p)"

text \<open>
  \<open>xs.sort((a, b) => a.time.localeCompare(b.time))\<close>. \<open>localeCompare\<close> stands for
  \<open>String.prototype.localeCompare\<close>, a primitive of the language: a negative number,
  zero or a positive number, by the collation of the locale, which is not the order of
  the character codes. It is a consistent comparator, and for such a comparator
  \<open>Array.prototype.sort\<close> gives the one stable sorted arrangement of the array; that
  arrangement is computed here by insertion.
\<close>

fun insertByTime ::
  "(string \<Rightarrow> string \<Rightarrow> int) \<Rightarrow> NormalizedEvent \<Rightarrow> NormalizedEvent list \<Rightarrow> NormalizedEvent list" where
  "insertByTime localeCompare a [] = [a]"
| "insertByTime localeCompare a (b # bs) =
     (if localeCompare (time a) (time b) \<le> 0 then a # b # bs
      else b # insertByTime localeCompare a bs)"

definition sortByTime ::
  "(string \<Rightarrow> string \<Rightarrow> int) \<Rightarrow> NormalizedEvent list \<Rightarrow> NormalizedEvent list" where
  "sortByTime localeCompare es = foldr (insertByTime localeCompare) es []"

text \<open>
  A \<open>Map\<close> iterates in insertion order, so it is an association list with distinct
  keys. \<open>mapSet\<close> is \<open>Map.prototype.set\<close>: an existing key keeps its place.
\<close>

fun mapSet :: "string \<Rightarrow> 'v \<Rightarrow> (string \<times> 'v) list \<Rightarrow> (string \<times> 'v) list" where
  "mapSet k v [] = [(k, v)]"
| "mapSet k v ((k', v') # m) = (if k' = k then (k, v) # m else (k', v') # mapSet k v m)"

section \<open>Key extractor\<close>

definition getCorrelationKeys :: "NormalizedEvent \<Rightarrow> string list" where
  "getCorrelationKeys event =
     (if truthy (corr deployment_id event)
      then [''deployment:'' @ the (corr deployment_id event)] else [])
   @ (if truthy (corr pr_number event)
      then [''pr:'' @ interpolate (source_instance (source event)) @ '':''
            @ the (corr pr_number event)] else [])
   @ (if truthy (corr commit_sha event)
      then [''commit:'' @ the (corr commit_sha event)] else [])
   @ (if truthy (corr trace_id event)
      then [''trace:'' @ the (corr trace_id event)] else [])
   @ (if truthy (corr ticket_id event)
      then [''ticket:'' @ the (corr ticket_id event)] else [])"

section \<open>Grouping engine\<close>

text \<open>
  The three nested loops of \<open>groupEvents\<close> that look for an existing group. The
  variable \<open>groupKey\<close> starts as \<open>null\<close> (\<open>None\<close>); the innermost loop assigns the
  key of the group at the first member event that carries the correlation key, and
  the two outer loops stop as soon as \<open>groupKey\<close> is truthy.
\<close>

definition scanEvents ::
  "string \<Rightarrow> string \<Rightarrow> NormalizedEvent list \<Rightarrow> string option \<Rightarrow> string option" where
  "scanEvents key existingGroupKey existingEvents groupKey =
     (if \<exists>existingEvent \<in> set existingEvents. key \<in> set (getCorrelationKeys existingEvent)
      then Some existingGroupKey else groupKey)"

fun scanGroups ::
  "string \<Rightarrow> (string \<times> NormalizedEvent list) list \<Rightarrow> string option \<Rightarrow> string option" where
  "scanGroups key [] groupKey = groupKey"
| "scanGroups key ((existingGroupKey, existingEvents) # groups) groupKey =
     (let groupKey' = scanEvents key existingGroupKey existingEvents groupKey
      in if truthy groupKey' then groupKey' else scanGroups key groups groupKey')"

fun scanKeys ::
  "string list \<Rightarrow> (string \<times> NormalizedEvent list) list \<Rightarrow> string option \<Rightarrow> string option" where
  "scanKeys [] groups groupKey = groupKey"
| "scanKeys (key # correlationKeys) groups groupKey =
     (let groupKey' = scanGroups key groups groupKey
      in if truthy groupKey' then groupKey' else scanKeys correlationKeys groups groupKey')"

text \<open>\<open>correlationKeys[0] || `event:${event.id}`\<close>\<close>

definition primaryKey :: "string list \<Rightarrow> NormalizedEvent \<Rightarrow> string" where
  "primaryKey correlationKeys event =
     (case correlationKeys of
        [] \<Rightarrow> ''event:'' @ event_id event
      | k # _ \<Rightarrow> if k \<noteq> [] then k else ''event:'' @ event_id event)"

text \<open>
  \<open>if (!groups.has(groupKey)) groups.set(groupKey, []); groups.get(groupKey).push(event)\<close>
\<close>

fun pushEvent ::
  "string \<Rightarrow> NormalizedEvent \<Rightarrow> (string \<times> NormalizedEvent list) list
   \<Rightarrow> (string \<times> NormalizedEvent list) list" where
  "pushEvent groupKey event [] = [(groupKey, [event])]"
| "pushEvent groupKey event ((k, es) # groups) =
     (if k = groupKey then (k, es @ [event]) # groups
      else (k, es) # pushEvent groupKey event groups)"

text \<open>
  One turn of the outer loop of \<open>groupEvents\<close>. (The map \<open>eventToGroup\<close> of the
  source is written and never read.)
\<close>

definition assignEvent ::
  "(string \<times> NormalizedEvent list) list \<Rightarrow> NormalizedEvent
   \<Rightarrow> (string \<times> NormalizedEvent list) list" where
  "assignEvent groups event =
     (let correlationKeys = getCorrelationKeys event;
          found = scanKeys correlationKeys groups None;
          groupKey = (if truthy found then the found else primaryKey correlationKeys event)
      in pushEvent groupKey event groups)"

definition seedGroups :: "NormalizedEvent list \<Rightarrow> (string \<times> NormalizedEvent list) list" where
  "seedGroups batch = foldl assignEvent [] batch"

definition groupsAreRelated :: "NormalizedEvent list \<Rightarrow> NormalizedEvent list \<Rightarrow> bool" where
  "groupsAreRelated group1 group2 =
     (\<exists>k \<in> set (concat (map getCorrelationKeys group2)).
        k \<in> set (concat (map getCorrelationKeys group1)))"

text \<open>
  The outer loop of \<open>mergeRelatedGroups\<close> over the entries still to visit; \<open>groups\<close>
  is the whole map, scanned again by the inner loop, which does not change
  \<open>processed\<close>.
\<close>

fun mergeLoop ::
  "(string \<Rightarrow> string \<Rightarrow> int)
   \<Rightarrow> (string \<times> NormalizedEvent list) list \<Rightarrow> (string \<times> NormalizedEvent list) list
   \<Rightarrow> string set \<Rightarrow> (string \<times> NormalizedEvent list) list
   \<Rightarrow> (string \<times> NormalizedEvent list) list" where
  "mergeLoop localeCompare groups [] processed merged = merged"
| "mergeLoop localeCompare groups ((key, es) # todo) processed merged =
     (if key \<in> processed then mergeLoop localeCompare groups todo processed merged
      else
        let others = filter (\<lambda>(otherKey, otherEvents).
                        \<not> (otherKey = key \<or> otherKey \<in> processed)
                        \<and> groupsAreRelated es otherEvents) groups;
            relatedEvents = es @ concat (map snd others);
            toMerge = key # map fst others
        in mergeLoop localeCompare groups todo (processed \<union> set toMerge)
             (mapSet key (sortByTime localeCompare relatedEvents) merged))"

definition mergeRelatedGroups ::
  "(string \<Rightarrow> string \<Rightarrow> int)
   \<Rightarrow> (string \<times> NormalizedEvent list) list \<Rightarrow> (string \<times> NormalizedEvent list) list" where
  "mergeRelatedGroups localeCompare groups = mergeLoop localeCompare groups groups {} []"

definition groupEvents ::
  "(string \<Rightarrow> string \<Rightarrow> int) \<Rightarrow> NormalizedEvent list
   \<Rightarrow> (string \<times> NormalizedEvent list) list" where
  "groupEvents localeCompare batch = mergeRelatedGroups localeCompare (seedGroups batch)"

section \<open>Episode type classifier\<close>

definition determineEpisodeType :: "NormalizedEvent list \<Rightarrow> EpisodeType" where
  "determineEpisodeType es =
     (let kinds = set (map kind es)
      in if DEPLOYMENT \<in> kinds then DeploymentEpisode
         else if FEATURE_FLAG \<in> kinds then FlagEpisode
         else if ACCESS_GRANT \<in> kinds \<or> ACCESS_REVOKE \<in> kinds then AccessEpisode
         else if INCIDENT \<in> kinds then IncidentEpisode
         else if PR_MERGED \<in> kinds then PRMergeEpisode
         else CustomEpisode)"

section \<open>Causal graph builder\<close>

text \<open>
  \<open>getTime\<close> stands for \<open>new Date(s).getTime()\<close>, a primitive of the language: the
  milliseconds since the epoch, an integer, or \<open>NaN\<close> (\<open>None\<close>) for a string that is
  not a date. A difference with a \<open>NaN\<close> operand is \<open>NaN\<close>, and \<open>NaN < n\<close> is false.
\<close>

definition timeDiff ::
  "(string \<Rightarrow> int option) \<Rightarrow> NormalizedEvent \<Rightarrow> NormalizedEvent \<Rightarrow> int option" where
  "timeDiff getTime later earlier =
     (case (getTime (time later), getTime (time earlier)) of
        (Some l, Some e) \<Rightarrow> Some (l - e)
      | _ \<Rightarrow> None)"

fun lessThan :: "int option \<Rightarrow> int \<Rightarrow> bool" where
  "lessThan None n = False"
| "lessThan (Some d) n = (d < n)"

definition inferRelationship ::
  "(string \<Rightarrow> int option) \<Rightarrow> NormalizedEvent \<Rightarrow> NormalizedEvent \<Rightarrow> EdgeType option" where
  "inferRelationship getTime earlier later =
     (if kind earlier = PR_MERGED \<and> kind later = DEPLOYMENT
         \<and> corr commit_sha earlier = corr commit_sha later then Some CAUSES
      else if kind earlier = DEPLOYMENT \<and> kind later = TRACE
         \<and> corr deployment_id earlier = corr deployment_id later then Some TRIGGERS
      else if kind earlier = FEATURE_FLAG \<and> kind later = TRACE then Some TRIGGERS
      else if startsWith (kindName (kind earlier)) ''PR_''
         \<and> startsWith (kindName (kind later)) ''PR_''
         \<and> corr pr_number earlier = corr pr_number later then Some FOLLOWS
      else if truthy (corr trace_id earlier)
         \<and> corr trace_id earlier = corr trace_id later then Some RELATES_TO
      else if truthy (corr deployment_id earlier)
         \<and> corr deployment_id earlier = corr deployment_id later then Some RELATES_TO
      else if lessThan (timeDiff getTime later earlier) (5 * 60 * 1000)
         \<and> target_id (target earlier) = target_id (target later) then Some FOLLOWS
      else None)"

text \<open>The inner loop of \<open>buildCausalGraph\<close>: the events after \<open>event\<close>, in order.\<close>

fun edgesFrom ::
  "(string \<Rightarrow> int option) \<Rightarrow> NormalizedEvent \<Rightarrow> NormalizedEvent list \<Rightarrow> GraphEdge list" where
  "edgesFrom getTime event [] = []"
| "edgesFrom getTime event (laterEvent # rest) =
     (case inferRelationship getTime event laterEvent of
        None \<Rightarrow> edgesFrom getTime event rest
      | Some relationship \<Rightarrow>
          \<lparr>edge_from = event_id event, edge_to = event_id laterEvent,
           edge_type = relationship\<rparr> # edgesFrom getTime event rest)"

text \<open>The outer loop: every event with the events after it.\<close>

fun allEdges :: "(string \<Rightarrow> int option) \<Rightarrow> NormalizedEvent list \<Rightarrow> GraphEdge list" where
  "allEdges getTime [] = []"
| "allEdges getTime (event # rest) = edgesFrom getTime event rest @ allEdges getTime rest"

definition buildCausalGraph ::
  "(string \<Rightarrow> int option) \<Rightarrow> NormalizedEvent list \<Rightarrow> EpisodeGraph" where
  "buildCausalGraph getTime es = \<lparr>nodes = map event_id es, edges = allEdges getTime es\<rparr>"

section \<open>Episode assembler\<close>

text \<open>
  The counting maps of \<open>createEpisode\<close>: key \<open>\<mapsto>\<close> (first value seen, count), in
  insertion order. \<open>countOne\<close> is one turn of the counting loop.
\<close>

fun countOne :: "string \<Rightarrow> 'a \<Rightarrow> (string \<times> 'a \<times> nat) list \<Rightarrow> (string \<times> 'a \<times> nat) list" where
  "countOne key v [] = [(key, v, 1)]"
| "countOne key v ((k, existing, n) # counts) =
     (if k = key then (k, existing, n + 1) # counts
      else (k, existing, n) # countOne key v counts)"

definition countAll ::
  "('e \<Rightarrow> string) \<Rightarrow> ('e \<Rightarrow> 'a) \<Rightarrow> 'e list \<Rightarrow> (string \<times> 'a \<times> nat) list" where
  "countAll keyOf valueOf es = foldl (\<lambda>counts e. countOne (keyOf e) (valueOf e) counts) [] es"

text \<open>
  \<open>Array.from(counts.values()).sort((a, b) => b.count - a.count)[0]?.value\<close>: a
  stable sort by descending count, then the first entry, if any.
\<close>

definition mostCommon :: "(string \<times> 'a \<times> nat) list \<Rightarrow> 'a option" where
  "mostCommon counts =
     (case sort_key (\<lambda>(k, v, n). - int n) counts of
        [] \<Rightarrow> None
      | (k, v, n) # _ \<Rightarrow> Some v)"

datatype error = TypeError | StorageFailure

text \<open>
  \<open>newId\<close> is the value returned by \<open>generateId()\<close>. Reading \<open>sortedEvents[0].time\<close>
  of an empty group throws a \<open>TypeError\<close>.
\<close>

definition createEpisode ::
  "(string \<Rightarrow> string \<Rightarrow> int) \<Rightarrow> (string \<Rightarrow> int option) \<Rightarrow> string
   \<Rightarrow> NormalizedEvent list \<Rightarrow> EpisodeType \<Rightarrow> error + Episode" where
  "createEpisode localeCompare getTime newId es type =
     (let sortedEvents = sortByTime localeCompare es;
          graph = buildCausalGraph getTime sortedEvents;
          primaryActor = mostCommon (countAll (\<lambda>e. actor_id (actor e)) actor es);
          primaryTarget = mostCommon (countAll (\<lambda>e. target_id (target e)) target es)
      in case sortedEvents of
           [] \<Rightarrow> Inl TypeError
         | first # _ \<Rightarrow>
             Inr \<lparr>episode_id = newId, episode_type = type,
                  start_time = time first, end_time = time (last sortedEvents),
                  primary_actor = primaryActor, primary_target = primaryTarget,
                  events = map event_id sortedEvents, graph = graph\<rparr>)"

section \<open>The Storage collaborator and \<open>correlate\<close>\<close>

text \<open>
  Modelled from the spec: the Storage collaborator and \<open>generateId\<close> (storage/ and
  utils/ are not among the sources). \<open>saveEpisode(Episode)\<close> gives an acknowledgement
  or a failure: \<open>saveEpisode st ep\<close> is the storage after the write, or \<open>None\<close> when
  the write fails (the promise rejects). \<open>generateId\<close> gives a fresh identifier at
  each call: \<open>ids n\<close> is the identifier of the \<open>n\<close>-th call made during one
  invocation of \<open>correlate\<close>.
\<close>

type_synonym 'st saveEpisode = "'st \<Rightarrow> Episode \<Rightarrow> 'st option"

text \<open>
  The loop of \<open>correlate\<close>: the result is the list \<open>newEpisodes\<close>, or the error that
  left the loop, together with the storage as the call leaves it.
\<close>

fun correlateLoop ::
  "'st saveEpisode \<Rightarrow> (nat \<Rightarrow> string) \<Rightarrow> (string \<Rightarrow> string \<Rightarrow> int)
   \<Rightarrow> (string \<Rightarrow> int option)
   \<Rightarrow> (string \<times> NormalizedEvent list) list \<Rightarrow> nat \<Rightarrow> Episode list \<Rightarrow> 'st
   \<Rightarrow> (error + Episode list) \<times> 'st" where
  "correlateLoop saveEpisode ids localeCompare getTime [] n newEpisodes st = (Inr newEpisodes, st)"
| "correlateLoop saveEpisode ids localeCompare getTime ((key, groupedEvents) # eventGroups) n newEpisodes st =
     (let episodeType = determineEpisodeType groupedEvents
      in case createEpisode localeCompare getTime (ids n) groupedEvents episodeType of
           Inl err \<Rightarrow> (Inl err, st)
         | Inr episode \<Rightarrow>
             (case saveEpisode st episode of
                None \<Rightarrow> (Inl StorageFailure, st)
              | Some st' \<Rightarrow>
                  correlateLoop saveEpisode ids localeCompare getTime eventGroups (Suc n)
                    (newEpisodes @ [episode]) st'))"

definition correlate ::
  "'st saveEpisode \<Rightarrow> (nat \<Rightarrow> string) \<Rightarrow> (string \<Rightarrow> string \<Rightarrow> int)
   \<Rightarrow> (string \<Rightarrow> int option)
   \<Rightarrow> NormalizedEvent list \<Rightarrow> 'st \<Rightarrow> (error + Episode list) \<times> 'st" where
  "correlate saveEpisode ids localeCompare getTime batch st =
     correlateLoop saveEpisode ids localeCompare getTime (groupEvents localeCompare batch) 0 [] st"

section \<open>The rules of \<open>inferRelationship\<close>, one by one\<close>

text \<open>
  The conditions of the first six \<open>if\<close> statements of \<open>inferRelationship\<close>, named so
  that a statement can say which rule decides a pair.
\<close>

definition rule1 :: "NormalizedEvent \<Rightarrow> NormalizedEvent \<Rightarrow> bool" where
  "rule1 earlier later =
     (kind earlier = PR_MERGED \<and> kind later = DEPLOYMENT
      \<and> corr commit_sha earlier = corr commit_sha later)"

definition rule2 :: "NormalizedEvent \<Rightarrow> NormalizedEvent \<Rightarrow> bool" where
  "rule2 earlier later =
     (kind earlier = DEPLOYMENT \<and> kind later = TRACE
      \<and> corr deployment_id earlier = corr deployment_id later)"

definition rule3 :: "NormalizedEvent \<Rightarrow> NormalizedEvent \<Rightarrow> bool" where
  "rule3 earlier later = (kind earlier = FEATURE_FLAG \<and> kind later = TRACE)"

definition rule4 :: "NormalizedEvent \<Rightarrow> NormalizedEvent \<Rightarrow> bool" where
  "rule4 earlier later =
     (startsWith (kindName (kind earlier)) ''PR_'' \<and> startsWith (kindName (kind later)) ''PR_''
      \<and> corr pr_number earlier = corr pr_number later)"

definition rule5 :: "NormalizedEvent \<Rightarrow> NormalizedEvent \<Rightarrow> bool" where
  "rule5 earlier later =
     (truthy (corr trace_id earlier) \<and> corr trace_id earlier = corr trace_id later)"

definition rule6 :: "NormalizedEvent \<Rightarrow> NormalizedEvent \<Rightarrow> bool" where
  "rule6 earlier later =
     (truthy (corr deployment_id earlier)
      \<and> corr deployment_id earlier = corr deployment_id later)"

section \<open>The key list in the words of the specification\<close>

text \<open>
  The key list as section 4.1 of the specification words it: one key for every field
  that is not absent, in the fixed priority order. It is compared with
  \<open>getCorrelationKeys\<close> below.
\<close>

fun keyOfPresent :: "string \<Rightarrow> string option \<Rightarrow> string list" where
  "keyOfPresent prefix None = []"
| "keyOfPresent prefix (Some v) = [prefix @ v]"

definition keysOfPresentFields :: "NormalizedEvent \<Rightarrow> string list" where
  "keysOfPresentFields event =
     keyOfPresent ''deployment:'' (corr deployment_id event)
   @ keyOfPresent (''pr:'' @ interpolate (source_instance (source event)) @ '':'')
       (corr pr_number event)
   @ keyOfPresent ''commit:'' (corr commit_sha event)
   @ keyOfPresent ''trace:'' (corr trace_id event)
   @ keyOfPresent ''ticket:'' (corr ticket_id event)"

text \<open>The same with the guard of the code: a field that is absent or empty gives no key.\<close>

fun keyOfNonEmpty :: "string \<Rightarrow> string option \<Rightarrow> string list" where
  "keyOfNonEmpty prefix None = []"
| "keyOfNonEmpty prefix (Some v) = (if v = [] then [] else [prefix @ v])"

section \<open>Notions used to state the properties\<close>

text \<open>
  The episodes that \<open>correlate\<close> assembles for a list of groups, in the order of the
  groups, the \<open>n\<close>-th one with the \<open>n\<close>-th identifier; and the storage after writing
  a list of episodes one after the other, \<open>None\<close> as soon as one write fails.
\<close>

fun assembleFrom ::
  "(string \<Rightarrow> string \<Rightarrow> int) \<Rightarrow> (string \<Rightarrow> int option) \<Rightarrow> (nat \<Rightarrow> string) \<Rightarrow> nat
   \<Rightarrow> (string \<times> NormalizedEvent list) list \<Rightarrow> (error + Episode) list" where
  "assembleFrom localeCompare getTime ids n [] = []"
| "assembleFrom localeCompare getTime ids n ((key, es) # groups) =
     createEpisode localeCompare getTime (ids n) es (determineEpisodeType es)
     # assembleFrom localeCompare getTime ids (Suc n) groups"

fun saveAll :: "'st saveEpisode \<Rightarrow> 'st \<Rightarrow> Episode list \<Rightarrow> 'st option" where
  "saveAll saveEpisode st [] = Some st"
| "saveAll saveEpisode st (ep # eps) =
     (case saveEpisode st ep of None \<Rightarrow> None | Some st' \<Rightarrow> saveAll saveEpisode st' eps)"

text \<open>How many events of a group have the same key (actor id, target id) as \<open>x\<close>.\<close>

definition occurrences :: "('e \<Rightarrow> string) \<Rightarrow> 'e list \<Rightarrow> 'e \<Rightarrow> nat" where
  "occurrences keyOf es x = length (filter (\<lambda>y. keyOf y = keyOf x) es)"

text \<open>The distinct keys of a list of events, in the order of their first occurrence.\<close>

definition firstKeys :: "('e \<Rightarrow> string) \<Rightarrow> 'e list \<Rightarrow> string list" where
  "firstKeys keyOf es = rev (remdups (rev (map keyOf es)))"

section \<open>An example of a collation\<close>

text \<open>
  The collation of the root locale on the characters of a timestamp: punctuation
  (\<open>-\<close>, \<open>:\<close>, \<open>.\<close>) comes before symbols (\<open>+\<close>), symbols before digits, digits before
  letters. Two strings are compared by the first position at which their characters
  differ in this order. (By character code \<open>+\<close> comes before \<open>-\<close> and \<open>:\<close> after the
  digits.)
\<close>

definition collationAlphabet :: string where
  "collationAlphabet = ''-:.+0123456789TZ''"

definition collationWeight :: "char \<Rightarrow> nat" where
  "collationWeight c = length (takeWhile (\<lambda>x. x \<noteq> c) collationAlphabet)"

definition timestampCollation :: "string \<Rightarrow> string \<Rightarrow> int" where
  "timestampCollation a b =
     (if map collationWeight a < map collationWeight b then - 1
      else if map collationWeight a = map collationWeight b then 0
      else 1)"

section \<open>An example of a storage\<close>

text \<open>
  A storage that keeps the episodes in a list and has room for \<open>capacity\<close> of them: a
  write to a full storage fails. The identifiers of the examples are \<open>episode-\<close>
  followed by \<open>n\<close> strokes.
\<close>

definition boundedSave :: "nat \<Rightarrow> Episode list saveEpisode" where
  "boundedSave capacity st ep = (if length st < capacity then Some (st @ [ep]) else None)"

definition exampleIds :: "nat \<Rightarrow> string" where
  "exampleIds n = ''episode-'' @ replicate n (CHR ''i'')"

section \<open>Example data\<close>

text \<open>Events in the shape of the fixtures of the test suite.\<close>

definition noCorrelation :: Correlation where
  "noCorrelation =
     \<lparr>trace_id = None, commit_sha = None, pr_number = None, ticket_id = None,
      deployment_id = None, parent_event_id = None\<rparr>"

definition exampleEvent ::
  "string \<Rightarrow> string \<Rightarrow> EventKind \<Rightarrow> string \<Rightarrow> string \<Rightarrow> Correlation option \<Rightarrow> NormalizedEvent" where
  "exampleEvent i t k a tg c =
     \<lparr>event_id = i, time = t,
      source = \<lparr>source_system = SysGithub, source_adapter = ''github'', source_instance = None\<rparr>,
      kind = k,
      actor = \<lparr>actor_type = ActorUser, actor_id = a, actor_display = a, actor_org = None\<rparr>,
      target = \<lparr>target_type = TargetService, target_id = tg, target_display = tg,
                target_env = None, target_region = None\<rparr>,
      action = ''act'', outcome = SUCCESS, correlation = c, evidence = None\<rparr>"

text \<open>The two timestamps of the fixtures, five minutes apart, as \<open>Date\<close> reads them.\<close>

definition exampleGetTime :: "string \<Rightarrow> int option" where
  "exampleGetTime s =
     (if s = ''2024-01-15T10:00:00Z'' then Some 1705312800000
      else if s = ''2024-01-15T10:05:00Z'' then Some 1705313100000
      else None)"

definition grantEvent :: NormalizedEvent where
  "grantEvent = exampleEvent ''grant-1'' ''2024-01-15T10:00:00Z'' ACCESS_GRANT ''alice'' ''app''
     (Some (noCorrelation\<lparr>deployment_id := Some ''789''\<rparr>))"

definition deployEvent :: NormalizedEvent where
  "deployEvent = exampleEvent ''deploy-1'' ''2024-01-15T10:05:00Z'' DEPLOYMENT ''ci'' ''app''
     (Some (noCorrelation\<lparr>deployment_id := Some ''789''\<rparr>))"

definition emptyDeploymentEvent :: NormalizedEvent where
  "emptyDeploymentEvent = exampleEvent ''event-1'' ''2024-01-15T10:00:00Z'' CUSTOM ''alice'' ''app''
     (Some (noCorrelation\<lparr>deployment_id := Some []\<rparr>))"

definition prEvent :: NormalizedEvent where
  "prEvent = exampleEvent ''event-1'' ''2024-01-15T10:00:00Z'' PR_MERGED ''alice'' ''app''
     (Some (noCorrelation\<lparr>pr_number := Some ''42'', commit_sha := Some ''abc123''\<rparr>))"

definition plainEarlier :: NormalizedEvent where
  "plainEarlier = exampleEvent ''event-1'' ''2024-01-15T10:00:00Z'' CUSTOM ''alice'' ''app'' None"

definition plainLater :: NormalizedEvent where
  "plainLater = exampleEvent ''event-2'' ''2024-01-15T10:05:00Z'' CUSTOM ''bob'' ''app'' None"

definition mergedNoSha :: NormalizedEvent where
  "mergedNoSha = exampleEvent ''event-1'' ''2024-01-15T10:00:00Z'' PR_MERGED ''alice'' ''app'' None"

definition deployNoSha :: NormalizedEvent where
  "deployNoSha = exampleEvent ''event-2'' ''2024-01-15T10:05:00Z'' DEPLOYMENT ''ci'' ''app''
     (Some noCorrelation)"

text \<open>A storage with room for every episode.\<close>

definition unboundedSave :: "Episode list saveEpisode" where
  "unboundedSave st ep = Some (st @ [ep])"

text \<open>Three events of two traces.\<close>

definition traceA :: NormalizedEvent where
  "traceA = exampleEvent ''A'' ''2024-01-15T10:00:00Z'' TRACE ''alice'' ''app''
     (Some (noCorrelation\<lparr>trace_id := Some ''X''\<rparr>))"

definition traceB :: NormalizedEvent where
  "traceB = exampleEvent ''B'' ''2024-01-15T10:05:00Z'' TRACE ''bob'' ''web''
     (Some (noCorrelation\<lparr>trace_id := Some ''X''\<rparr>))"

definition traceC :: NormalizedEvent where
  "traceC = exampleEvent ''C'' ''2024-01-15T10:05:00Z'' TRACE ''carol'' ''db''
     (Some (noCorrelation\<lparr>trace_id := Some ''Y''\<rparr>))"

text \<open>
  A group in which two actors and two targets tie: \<open>bob\<close> and \<open>web\<close> come first in
  the group, \<open>alice\<close> and \<open>app\<close> come first in the alphabet.
\<close>

definition tieGroup :: "NormalizedEvent list" where
  "tieGroup =
     [exampleEvent ''event-1'' ''2024-01-15T10:00:00Z'' CUSTOM ''bob'' ''web'' None,
      exampleEvent ''event-2'' ''2024-01-15T10:00:00Z'' CUSTOM ''alice'' ''app'' None,
      exampleEvent ''event-3'' ''2024-01-15T10:05:00Z'' CUSTOM ''alice'' ''app'' None,
      exampleEvent ''event-4'' ''2024-01-15T10:05:00Z'' CUSTOM ''bob'' ''web'' None]"



text \<open>
  Three events of two traces where the first and the third are pull requests with
  different numbers, of source instances with different names.
\<close>

definition colonA :: NormalizedEvent where
  "colonA = (exampleEvent ''A'' ''2024-01-15T10:00:00Z'' PR_OPENED ''alice'' ''app''
     (Some (noCorrelation\<lparr>trace_id := Some ''X'', pr_number := Some ''c''\<rparr>)))
     \<lparr>source := \<lparr>source_system = SysGithub, source_adapter = ''github'',
                  source_instance = Some ''a:b''\<rparr>\<rparr>"

definition colonB :: NormalizedEvent where
  "colonB = exampleEvent ''B'' ''2024-01-15T10:00:00Z'' TRACE ''bob'' ''web''
     (Some (noCorrelation\<lparr>trace_id := Some ''X''\<rparr>))"

definition colonC :: NormalizedEvent where
  "colonC = (exampleEvent ''C'' ''2024-01-15T10:00:00Z'' PR_OPENED ''carol'' ''db''
     (Some (noCorrelation\<lparr>trace_id := Some ''Y'', pr_number := Some ''b:c''\<rparr>)))
     \<lparr>source := \<lparr>source_system = SysGithub, source_adapter = ''github'',
                  source_instance = Some ''a''\<rparr>\<rparr>"

section \<open>Episode type classifier: priority\<close>

text \<open>
  Claim C7. The episode type of a group is the first match, over the kinds that occur
  in the group, in the order DEPLOYMENT, FEATURE_FLAG, ACCESS_GRANT or ACCESS_REVOKE,
  INCIDENT, PR_MERGED, and CustomEpisode when none occurs. In particular a group with
  an ACCESS_GRANT event and a DEPLOYMENT event is a DeploymentEpisode.
\<close>

theorem determineEpisodeType_priority:
  "determineEpisodeType es =
     (if \<exists>e \<in> set es. kind e = DEPLOYMENT then DeploymentEpisode
      else if \<exists>e \<in> set es. kind e = FEATURE_FLAG then FlagEpisode
      else if \<exists>e \<in> set es. kind e = ACCESS_GRANT \<or> kind e = ACCESS_REVOKE then AccessEpisode
      else if \<exists>e \<in> set es. kind e = INCIDENT then IncidentEpisode
      else if \<exists>e \<in> set es. kind e = PR_MERGED then PRMergeEpisode
      else CustomEpisode)
   \<and> (a \<in> set es \<and> d \<in> set es \<and> kind a = ACCESS_GRANT \<and> kind d = DEPLOYMENT
        \<longrightarrow> determineEpisodeType es = DeploymentEpisode)"
proof -
  have in_kinds: "\<And>k. (k \<in> set (map kind es)) = (\<exists>e \<in> set es. kind e = k)"
    by auto
  have first: "determineEpisodeType es =
     (if \<exists>e \<in> set es. kind e = DEPLOYMENT then DeploymentEpisode
      else if \<exists>e \<in> set es. kind e = FEATURE_FLAG then FlagEpisode
      else if \<exists>e \<in> set es. kind e = ACCESS_GRANT \<or> kind e = ACCESS_REVOKE then AccessEpisode
      else if \<exists>e \<in> set es. kind e = INCIDENT then IncidentEpisode
      else if \<exists>e \<in> set es. kind e = PR_MERGED then PRMergeEpisode
      else CustomEpisode)"
    unfolding determineEpisodeType_def Let_def in_kinds by auto
  have "\<exists>e \<in> set es. kind e = DEPLOYMENT" if "d \<in> set es" "kind d = DEPLOYMENT"
    using that by blast
  with first show ?thesis by simp
qed

theorem determineEpisodeType_priority_witness:
  "determineEpisodeType [grantEvent, deployEvent] = DeploymentEpisode
   \<and> determineEpisodeType [deployEvent, grantEvent] = DeploymentEpisode
   \<and> determineEpisodeType [grantEvent] = AccessEpisode"
  using determineEpisodeType_priority [of "[grantEvent, deployEvent]" grantEvent deployEvent]
    determineEpisodeType_priority [of "[deployEvent, grantEvent]" grantEvent deployEvent]
    determineEpisodeType_priority [of "[grantEvent]" grantEvent deployEvent]
  by (simp add: grantEvent_def deployEvent_def exampleEvent_def)

section \<open>Key extractor: order of the keys\<close>

lemma keyOfNonEmpty_truthy:
  "keyOfNonEmpty prefix v = (if truthy v then [prefix @ the v] else [])"
  by (cases v) simp_all

lemma truthy_key_present:
  "v \<noteq> Some [] \<Longrightarrow> (if truthy v then [p @ the v] else []) = keyOfPresent p v"
  by (cases v) simp_all

lemma truthy_key_present3:
  "v \<noteq> Some [] \<Longrightarrow> (if truthy v then [a @ b @ c @ the v] else []) = keyOfPresent (a @ b @ c) v"
  by (cases v) simp_all

text \<open>
  Claim C8, as amended. The key extractor returns the keys in the fixed priority order
  \<open>deployment:\<close>, \<open>pr:<source instance>:\<close>, \<open>commit:\<close>, \<open>trace:\<close>, \<open>ticket:\<close>,
  leaving out every field that is absent or the empty string. When no field is the
  empty string this is the list of the keys of the fields that are present. The list
  depends on the correlation bag and on the source instance of the event only.
\<close>

theorem getCorrelationKeys_priority_order:
  "getCorrelationKeys event =
     concat (map (\<lambda>(prefix, field). keyOfNonEmpty prefix field)
       [(''deployment:'', corr deployment_id event),
        (''pr:'' @ interpolate (source_instance (source event)) @ '':'', corr pr_number event),
        (''commit:'', corr commit_sha event),
        (''trace:'', corr trace_id event),
        (''ticket:'', corr ticket_id event)])
   \<and> ((\<forall>field \<in> {deployment_id, pr_number, commit_sha, trace_id, ticket_id}.
          corr field event \<noteq> Some [])
        \<longrightarrow> getCorrelationKeys event = keysOfPresentFields event)
   \<and> (correlation event' = correlation event
        \<and> source_instance (source event') = source_instance (source event)
        \<longrightarrow> getCorrelationKeys event' = getCorrelationKeys event)"
proof (intro conjI impI)
  show "getCorrelationKeys event =
     concat (map (\<lambda>(prefix, field). keyOfNonEmpty prefix field)
       [(''deployment:'', corr deployment_id event),
        (''pr:'' @ interpolate (source_instance (source event)) @ '':'', corr pr_number event),
        (''commit:'', corr commit_sha event),
        (''trace:'', corr trace_id event),
        (''ticket:'', corr ticket_id event)])"
    by (simp add: getCorrelationKeys_def keyOfNonEmpty_truthy)
next
  assume "\<forall>field \<in> {deployment_id, pr_number, commit_sha, trace_id, ticket_id}.
            corr field event \<noteq> Some []"
  then have "corr deployment_id event \<noteq> Some []" "corr pr_number event \<noteq> Some []"
    "corr commit_sha event \<noteq> Some []" "corr trace_id event \<noteq> Some []"
    "corr ticket_id event \<noteq> Some []"
    by simp_all
  then show "getCorrelationKeys event = keysOfPresentFields event"
    unfolding getCorrelationKeys_def keysOfPresentFields_def
    by (simp only: truthy_key_present truthy_key_present3 simp_thms)
next
  assume "correlation event' = correlation event
    \<and> source_instance (source event') = source_instance (source event)"
  then show "getCorrelationKeys event' = getCorrelationKeys event"
    by (simp add: getCorrelationKeys_def corr_def)
qed

theorem getCorrelationKeys_priority_order_witness:
  "getCorrelationKeys prEvent = [''pr:undefined:42'', ''commit:abc123'']
   \<and> getCorrelationKeys prEvent = keysOfPresentFields prEvent
   \<and> getCorrelationKeys (prEvent\<lparr>event_id := ''other''\<rparr>) = getCorrelationKeys prEvent"
  using getCorrelationKeys_priority_order [of prEvent "prEvent\<lparr>event_id := ''other''\<rparr>"]
  by (simp add: prEvent_def exampleEvent_def noCorrelation_def corr_def
      keysOfPresentFields_def)

text \<open>
  The claim as the specification words it fails on an event whose \<open>deployment_id\<close>
  is present and empty: the field is not absent, and it gives no key.
\<close>

theorem getCorrelationKeys_empty_field_counterexample:
  "corr deployment_id emptyDeploymentEvent \<noteq> None
   \<and> getCorrelationKeys emptyDeploymentEvent = []
   \<and> keysOfPresentFields emptyDeploymentEvent = [''deployment:'']
   \<and> getCorrelationKeys emptyDeploymentEvent \<noteq> keysOfPresentFields emptyDeploymentEvent"
  by (simp add: emptyDeploymentEvent_def exampleEvent_def noCorrelation_def corr_def
      getCorrelationKeys_def keysOfPresentFields_def)

section \<open>Causal graph builder: the rules\<close>

lemma inferRelationship_rules:
  "inferRelationship getTime earlier later =
     (if rule1 earlier later then Some CAUSES
      else if rule2 earlier later then Some TRIGGERS
      else if rule3 earlier later then Some TRIGGERS
      else if rule4 earlier later then Some FOLLOWS
      else if rule5 earlier later then Some RELATES_TO
      else if rule6 earlier later then Some RELATES_TO
      else if lessThan (timeDiff getTime later earlier) (5 * 60 * 1000)
         \<and> target_id (target earlier) = target_id (target later) then Some FOLLOWS
      else None)"
  unfolding inferRelationship_def rule1_def rule2_def rule3_def rule4_def rule5_def rule6_def
  by simp

lemma lessThan_timeDiff:
  "lessThan (timeDiff getTime later earlier) n =
     (\<exists>l e. getTime (time later) = Some l \<and> getTime (time earlier) = Some e \<and> l - e < n)"
  by (auto simp: timeDiff_def split: option.splits)

lemma startsWith_PR:
  "startsWith (kindName k) ''PR_'' = (k = PR_MERGED \<or> k = PR_OPENED \<or> k = PR_APPROVED)"
  by (cases k) (simp_all add: startsWith_def)

lemma edgesFrom_iff:
  "edge \<in> set (edgesFrom getTime a rest) =
     (\<exists>mid b post r. rest = mid @ b # post \<and> inferRelationship getTime a b = Some r
        \<and> edge = \<lparr>edge_from = event_id a, edge_to = event_id b, edge_type = r\<rparr>)"
proof (induction rest)
  case Nil
  then show ?case by simp
next
  case (Cons c rest)
  let ?here = "\<exists>r. inferRelationship getTime a c = Some r
      \<and> edge = \<lparr>edge_from = event_id a, edge_to = event_id c, edge_type = r\<rparr>"
  let ?later = "\<lambda>rest. \<exists>mid b post r. rest = mid @ b # post
      \<and> inferRelationship getTime a b = Some r
      \<and> edge = \<lparr>edge_from = event_id a, edge_to = event_id b, edge_type = r\<rparr>"
  have "edge \<in> set (edgesFrom getTime a (c # rest)) = (?here \<or> ?later rest)"
    using Cons.IH by (auto split: option.splits)
  also have "\<dots> = ?later (c # rest)"
  proof
    assume "?here \<or> ?later rest"
    then show "?later (c # rest)"
    proof
      assume ?here
      then show ?thesis by (metis append_Nil)
    next
      assume "?later rest"
      then show ?thesis by (metis append_Cons)
    qed
  next
    assume "?later (c # rest)"
    then obtain mid b post r where split: "c # rest = mid @ b # post"
      and r: "inferRelationship getTime a b = Some r"
        "edge = \<lparr>edge_from = event_id a, edge_to = event_id b, edge_type = r\<rparr>"
      by blast
    show "?here \<or> ?later rest"
    proof (cases mid)
      case Nil
      then show ?thesis using split r by auto
    next
      case (Cons m mid')
      then have "rest = mid' @ b # post"
        using split by simp
      then show ?thesis using r by blast
    qed
  qed
  finally show ?case .
qed

lemma allEdges_iff:
  "edge \<in> set (allEdges getTime es) =
     (\<exists>pre a mid b post r. es = pre @ a # mid @ b # post
        \<and> inferRelationship getTime a b = Some r
        \<and> edge = \<lparr>edge_from = event_id a, edge_to = event_id b, edge_type = r\<rparr>)"
proof (induction es)
  case Nil
  then show ?case by simp
next
  case (Cons c es)
  let ?pair = "\<lambda>a b r. inferRelationship getTime a b = Some r
      \<and> edge = \<lparr>edge_from = event_id a, edge_to = event_id b, edge_type = r\<rparr>"
  let ?first = "\<exists>mid b post r. es = mid @ b # post \<and> ?pair c b r"
  let ?rest = "\<lambda>es. \<exists>pre a mid b post r. es = pre @ a # mid @ b # post \<and> ?pair a b r"
  have "edge \<in> set (allEdges getTime (c # es)) = (?first \<or> ?rest es)"
    using Cons.IH by (simp add: edgesFrom_iff)
  also have "\<dots> = ?rest (c # es)"
  proof
    assume "?first \<or> ?rest es"
    then show "?rest (c # es)"
    proof
      assume ?first
      then obtain mid b post r where "c # es = [] @ c # mid @ b # post" "?pair c b r"
        by auto
      then show ?thesis by blast
    next
      assume "?rest es"
      then obtain pre a mid b post r where "c # es = (c # pre) @ a # mid @ b # post"
        "?pair a b r"
        by auto
      then show ?thesis by blast
    qed
  next
    assume "?rest (c # es)"
    then obtain pre a mid b post r where split: "c # es = pre @ a # mid @ b # post"
      and r: "?pair a b r"
      by blast
    show "?first \<or> ?rest es"
    proof (cases pre)
      case Nil
      then have "c = a" "es = mid @ b # post"
        using split by simp_all
      then show ?thesis using r by blast
    next
      case (Cons p pre')
      then have "es = pre' @ a # mid @ b # post"
        using split by simp
      then show ?thesis using r by blast
    qed
  qed
  finally show ?case .
qed

lemma same_id_same_event:
  assumes "distinct (map event_id es)" and "a \<in> set es" and "b \<in> set es"
    and "event_id a = event_id b"
  shows "a = b"
  using assms by (meson distinct_map inj_on_def)

lemma rule7_in_group:
  assumes es: "es = pre @ earlier # mid @ later # post"
    and ids: "distinct (map event_id es)"
    and infer: "(inferRelationship getTime earlier later = Some FOLLOWS) = close"
  shows "(\<lparr>edge_from = event_id earlier, edge_to = event_id later, edge_type = FOLLOWS\<rparr>
           \<in> set (edges (buildCausalGraph getTime es))) = close"
proof
  assume "\<lparr>edge_from = event_id earlier, edge_to = event_id later, edge_type = FOLLOWS\<rparr>
           \<in> set (edges (buildCausalGraph getTime es))"
  then obtain pre' a mid' b post' where split: "es = pre' @ a # mid' @ b # post'"
    and found: "inferRelationship getTime a b = Some FOLLOWS"
      "event_id a = event_id earlier" "event_id b = event_id later"
    by (auto simp: buildCausalGraph_def allEdges_iff)
  have "a \<in> set es" "b \<in> set es"
    by (simp_all add: split)
  moreover have "earlier \<in> set es" "later \<in> set es"
    by (simp_all add: es)
  ultimately have "a = earlier" "b = later"
    using same_id_same_event [OF ids] found(2,3) by blast+
  then show close
    using found(1) infer by simp
next
  assume close
  then have "inferRelationship getTime earlier later = Some FOLLOWS"
    using infer by simp
  then show "\<lparr>edge_from = event_id earlier, edge_to = event_id later, edge_type = FOLLOWS\<rparr>
           \<in> set (edges (buildCausalGraph getTime es))"
    unfolding buildCausalGraph_def using es by (simp add: allEdges_iff) blast
qed

text \<open>
  Claim C6. For a pair with the same target id that none of the rules 1 to 6 matches,
  a FOLLOWS edge is emitted exactly when both timestamps are dates and the later one
  is less than 5 * 60 * 1000 milliseconds after the earlier one; otherwise the pair
  gets no edge. Two such events exactly 5 * 60 * 1000 milliseconds apart get no edge.
  The same holds for the pair inside any group whose events have distinct ids.
\<close>

theorem rule7_strictly_less_than_five_minutes:
  assumes "target_id (target earlier) = target_id (target later)"
    and "\<not> rule1 earlier later" and "\<not> rule2 earlier later" and "\<not> rule3 earlier later"
    and "\<not> rule4 earlier later" and "\<not> rule5 earlier later" and "\<not> rule6 earlier later"
  shows "(inferRelationship getTime earlier later = Some FOLLOWS)
           = (\<exists>l e. getTime (time later) = Some l \<and> getTime (time earlier) = Some e
                \<and> l - e < 5 * 60 * 1000)
     \<and> (inferRelationship getTime earlier later \<noteq> Some FOLLOWS
          \<longrightarrow> inferRelationship getTime earlier later = None)
     \<and> edges (buildCausalGraph getTime [earlier, later]) =
         (if \<exists>l e. getTime (time later) = Some l \<and> getTime (time earlier) = Some e
               \<and> l - e < 5 * 60 * 1000
          then [\<lparr>edge_from = event_id earlier, edge_to = event_id later, edge_type = FOLLOWS\<rparr>]
          else [])
     \<and> (getTime (time earlier) = Some t \<and> getTime (time later) = Some (t + 5 * 60 * 1000)
          \<longrightarrow> inferRelationship getTime earlier later = None
             \<and> edges (buildCausalGraph getTime [earlier, later]) = [])
     \<and> (es = pre @ earlier # mid @ later # post \<and> distinct (map event_id es)
          \<longrightarrow> (\<lparr>edge_from = event_id earlier, edge_to = event_id later, edge_type = FOLLOWS\<rparr>
                 \<in> set (edges (buildCausalGraph getTime es)))
              = (\<exists>l e. getTime (time later) = Some l \<and> getTime (time earlier) = Some e
                   \<and> l - e < 5 * 60 * 1000))"
proof -
  let ?close = "\<exists>l e. getTime (time later) = Some l \<and> getTime (time earlier) = Some e
                \<and> l - e < 5 * 60 * 1000"
  have infer: "inferRelationship getTime earlier later = (if ?close then Some FOLLOWS else None)"
    using assms by (simp add: inferRelationship_rules lessThan_timeDiff)
  have graph: "edges (buildCausalGraph getTime [earlier, later]) =
      (if ?close
       then [\<lparr>edge_from = event_id earlier, edge_to = event_id later, edge_type = FOLLOWS\<rparr>]
       else [])"
    by (simp add: buildCausalGraph_def infer)
  have boundary: "\<not> ?close"
    if "getTime (time earlier) = Some t \<and> getTime (time later) = Some (t + 5 * 60 * 1000)"
    using that by auto
  have group: "(\<lparr>edge_from = event_id earlier, edge_to = event_id later, edge_type = FOLLOWS\<rparr>
        \<in> set (edges (buildCausalGraph getTime es))) = ?close"
    if "es = pre @ earlier # mid @ later # post \<and> distinct (map event_id es)"
  proof (rule rule7_in_group [of es pre earlier mid later post])
    show "es = pre @ earlier # mid @ later # post" and "distinct (map event_id es)"
      using that by blast+
    show "(inferRelationship getTime earlier later = Some FOLLOWS) = ?close"
      by (simp add: infer)
  qed
  have pair: "(inferRelationship getTime earlier later = Some FOLLOWS) = ?close"
    "inferRelationship getTime earlier later \<noteq> Some FOLLOWS
       \<longrightarrow> inferRelationship getTime earlier later = None"
    "getTime (time earlier) = Some t \<and> getTime (time later) = Some (t + 5 * 60 * 1000)
       \<longrightarrow> inferRelationship getTime earlier later = None
          \<and> edges (buildCausalGraph getTime [earlier, later]) = []"
    using infer graph boundary by auto
  show ?thesis
    using pair graph group by blast
qed

theorem rule7_strictly_less_than_five_minutes_witness:
  "inferRelationship exampleGetTime plainEarlier plainLater = None
   \<and> edges (buildCausalGraph exampleGetTime [plainEarlier, plainLater]) = []
   \<and> inferRelationship exampleGetTime plainEarlier (plainLater\<lparr>time := time plainEarlier\<rparr>)
       = Some FOLLOWS
   \<and> \<lparr>edge_from = ''event-1'', edge_to = ''event-2'', edge_type = FOLLOWS\<rparr>
       \<in> set (edges (buildCausalGraph exampleGetTime
           [grantEvent, plainEarlier, deployEvent,
            plainLater\<lparr>time := time plainEarlier\<rparr>]))"
proof -
  have same: "target_id (target plainEarlier) = target_id (target plainLater)"
    by (simp add: plainEarlier_def plainLater_def exampleEvent_def)
  have silent: "\<not> rule1 plainEarlier l" "\<not> rule2 plainEarlier l" "\<not> rule3 plainEarlier l"
    "\<not> rule4 plainEarlier l" "\<not> rule5 plainEarlier l" "\<not> rule6 plainEarlier l" for l
    by (simp_all add: rule1_def rule2_def rule3_def rule4_def rule5_def rule6_def
        plainEarlier_def exampleEvent_def corr_def startsWith_def)
  have times: "exampleGetTime (time plainEarlier) = Some 1705312800000"
    "exampleGetTime (time plainLater) = Some (1705312800000 + 5 * 60 * 1000)"
    by (simp_all add: plainEarlier_def plainLater_def exampleEvent_def exampleGetTime_def)
  have same': "target_id (target plainEarlier)
      = target_id (target (plainLater\<lparr>time := time plainEarlier\<rparr>))"
    using same by simp
  have ids: "event_id plainEarlier = ''event-1''"
    "event_id (plainLater\<lparr>time := time plainEarlier\<rparr>) = ''event-2''"
    "distinct (map event_id [grantEvent, plainEarlier, deployEvent,
       plainLater\<lparr>time := time plainEarlier\<rparr>])"
    by (simp_all add: plainEarlier_def plainLater_def grantEvent_def deployEvent_def
        exampleEvent_def)
  show ?thesis
    using rule7_strictly_less_than_five_minutes
            [OF same silent, of exampleGetTime 1705312800000]
          rule7_strictly_less_than_five_minutes
            [OF same' silent, where getTime = exampleGetTime and t = 1705312800000
              and es = "[grantEvent, plainEarlier, deployEvent,
                plainLater\<lparr>time := time plainEarlier\<rparr>]"
              and pre = "[grantEvent]" and mid = "[deployEvent]" and post = "[]"]
          times ids
    by simp
qed

text \<open>
  Claim C10. The rules 1, 2 and 4 compare the optional fields as they are, so two
  absent fields are the same: PR_MERGED before DEPLOYMENT with no \<open>commit_sha\<close> on
  either gives CAUSES, DEPLOYMENT before TRACE with no \<open>deployment_id\<close> on either
  gives TRIGGERS, and two events of a \<open>PR_\<close> kind with no \<open>pr_number\<close> on either give
  FOLLOWS. The rules 5 and 6 need a non-empty value: with \<open>trace_id\<close> and
  \<open>deployment_id\<close> absent on both events neither of them matches.
\<close>

theorem absent_fields_compare_equal:
  "(kind earlier = PR_MERGED \<and> kind later = DEPLOYMENT
      \<and> corr commit_sha earlier = None \<and> corr commit_sha later = None
      \<longrightarrow> inferRelationship getTime earlier later = Some CAUSES)
   \<and> (kind earlier = DEPLOYMENT \<and> kind later = TRACE
      \<and> corr deployment_id earlier = None \<and> corr deployment_id later = None
      \<longrightarrow> inferRelationship getTime earlier later = Some TRIGGERS)
   \<and> (startsWith (kindName (kind earlier)) ''PR_'' \<and> startsWith (kindName (kind later)) ''PR_''
      \<and> corr pr_number earlier = None \<and> corr pr_number later = None
      \<longrightarrow> inferRelationship getTime earlier later = Some FOLLOWS)
   \<and> (corr trace_id earlier = None \<and> corr trace_id later = None
      \<and> corr deployment_id earlier = None \<and> corr deployment_id later = None
      \<longrightarrow> \<not> rule5 earlier later \<and> \<not> rule6 earlier later
         \<and> inferRelationship getTime earlier later \<noteq> Some RELATES_TO)"
proof (intro conjI impI)
  assume "kind earlier = PR_MERGED \<and> kind later = DEPLOYMENT
      \<and> corr commit_sha earlier = None \<and> corr commit_sha later = None"
  then show "inferRelationship getTime earlier later = Some CAUSES"
    by (simp add: inferRelationship_def)
next
  assume "kind earlier = DEPLOYMENT \<and> kind later = TRACE
      \<and> corr deployment_id earlier = None \<and> corr deployment_id later = None"
  then show "inferRelationship getTime earlier later = Some TRIGGERS"
    by (simp add: inferRelationship_def)
next
  assume "startsWith (kindName (kind earlier)) ''PR_'' \<and> startsWith (kindName (kind later)) ''PR_''
      \<and> corr pr_number earlier = None \<and> corr pr_number later = None"
  then show "inferRelationship getTime earlier later = Some FOLLOWS"
    by (auto simp: inferRelationship_def startsWith_PR)
next
  assume absent: "corr trace_id earlier = None \<and> corr trace_id later = None
      \<and> corr deployment_id earlier = None \<and> corr deployment_id later = None"
  then show "\<not> rule5 earlier later" and "\<not> rule6 earlier later"
    by (simp_all add: rule5_def rule6_def)
  then show "inferRelationship getTime earlier later \<noteq> Some RELATES_TO"
    by (simp add: inferRelationship_rules)
qed

theorem absent_fields_compare_equal_witness:
  "inferRelationship exampleGetTime mergedNoSha deployNoSha = Some CAUSES
   \<and> inferRelationship exampleGetTime (mergedNoSha\<lparr>kind := DEPLOYMENT\<rparr>)
       (deployNoSha\<lparr>kind := TRACE\<rparr>) = Some TRIGGERS
   \<and> inferRelationship exampleGetTime mergedNoSha (deployNoSha\<lparr>kind := PR_OPENED\<rparr>)
       = Some FOLLOWS
   \<and> inferRelationship exampleGetTime plainEarlier plainLater \<noteq> Some RELATES_TO"
  using absent_fields_compare_equal [of mergedNoSha deployNoSha exampleGetTime]
    absent_fields_compare_equal [of "mergedNoSha\<lparr>kind := DEPLOYMENT\<rparr>"
      "deployNoSha\<lparr>kind := TRACE\<rparr>" exampleGetTime]
    absent_fields_compare_equal [of mergedNoSha "deployNoSha\<lparr>kind := PR_OPENED\<rparr>"
      exampleGetTime]
    absent_fields_compare_equal [of plainEarlier plainLater exampleGetTime]
  by (simp add: mergedNoSha_def deployNoSha_def plainEarlier_def plainLater_def
      exampleEvent_def noCorrelation_def corr_def startsWith_def)

section \<open>Episode assembler: time bounds\<close>


lemma insertByTime_mset: "mset (insertByTime localeCompare a bs) = add_mset a (mset bs)"
  by (induction bs) auto

lemma sortByTime_props:
  "mset (sortByTime localeCompare es) = mset es"
  "set (sortByTime localeCompare es) = set es"
  "(sortByTime localeCompare es = []) = (es = [])"
proof -
  show perm: "mset (sortByTime localeCompare es) = mset es"
    by (induction es) (simp_all add: sortByTime_def insertByTime_mset)
  then show "set (sortByTime localeCompare es) = set es"
    by (rule mset_eq_setD)
  from perm show "(sortByTime localeCompare es = []) = (es = [])"
    by (metis mset_zero_iff)
qed





lemma createEpisode_Inr:
  assumes "es \<noteq> []"
  shows "createEpisode localeCompare getTime newId es type =
     Inr \<lparr>episode_id = newId, episode_type = type,
          start_time = time (hd (sortByTime localeCompare es)),
          end_time = time (last (sortByTime localeCompare es)),
          primary_actor = mostCommon (countAll (\<lambda>e. actor_id (actor e)) actor es),
          primary_target = mostCommon (countAll (\<lambda>e. target_id (target e)) target es),
          events = map event_id (sortByTime localeCompare es),
          graph = buildCausalGraph getTime (sortByTime localeCompare es)\<rparr>"
proof -
  from assms obtain first rest where "sortByTime localeCompare es = first # rest"
    using sortByTime_props(3) [of localeCompare es]
    by (cases "sortByTime localeCompare es") auto
  then show ?thesis
    by (simp add: createEpisode_def Let_def)
qed

lemma createEpisode_Inl: "createEpisode localeCompare getTime newId [] type = Inl TypeError"
  by (simp add: createEpisode_def sortByTime_def)



lemma timestampCollation_same: "timestampCollation a a = 0"
  by (simp add: timestampCollation_def)

lemma timestampCollation_examples:
  "timestampCollation ''2024-01-15T10:00:00Z'' ''2024-01-15T10:05:00Z'' = - 1"
  "timestampCollation ''2024-01-15T10:05:00Z'' ''2024-01-15T10:00:00Z'' = 1"
  "timestampCollation ''2024-01-15T10:00:00-08:00'' ''2024-01-15T10:00:00+01:00'' = - 1"
  "timestampCollation ''2024-01-15T10:00:00+01:00'' ''2024-01-15T10:00:00-08:00'' = 1"
  by (simp_all add: timestampCollation_def collationWeight_def collationAlphabet_def)




section \<open>Grouping engine: every group is a non-empty part of the batch\<close>

lemma pushEvent_mset:
  "mset (concat (map snd (pushEvent k e groups))) = add_mset e (mset (concat (map snd groups)))"
  by (induction groups) auto

lemma pushEvent_nonempty:
  "\<forall>(k, es) \<in> set groups. es \<noteq> [] \<Longrightarrow> \<forall>(k, es) \<in> set (pushEvent key e groups). es \<noteq> []"
  by (induction groups) (auto split: if_splits)

lemma foldl_assignEvent_mset:
  "mset (concat (map snd (foldl assignEvent groups batch)))
     = mset batch + mset (concat (map snd groups))"
  by (induction batch arbitrary: groups) (simp_all add: assignEvent_def Let_def pushEvent_mset)

lemma foldl_assignEvent_nonempty:
  "\<forall>(k, es) \<in> set groups. es \<noteq> []
   \<Longrightarrow> \<forall>(k, es) \<in> set (foldl assignEvent groups batch). es \<noteq> []"
proof (induction batch arbitrary: groups)
  case Nil
  then show ?case by simp
next
  case (Cons e batch)
  have "\<forall>(k, es) \<in> set (assignEvent groups e). es \<noteq> []"
    unfolding assignEvent_def Let_def by (rule pushEvent_nonempty) (rule Cons.prems)
  then show ?case
    using Cons.IH by simp
qed

lemma seedGroups_mset: "mset (concat (map snd (seedGroups batch))) = mset batch"
  by (simp add: seedGroups_def foldl_assignEvent_mset)

lemma seedGroups_nonempty: "\<forall>(k, es) \<in> set (seedGroups batch). es \<noteq> []"
  unfolding seedGroups_def by (rule foldl_assignEvent_nonempty) simp

lemma filter_concat_subset:
  "mset (concat (map snd (filter P groups))) \<subseteq># mset (concat (map snd groups))"
  by (induction groups) (auto intro: subset_mset.add_increasing)

lemma related_concat_subset:
  "(key, es) \<in> set groups \<Longrightarrow> \<not> P (key, es)
   \<Longrightarrow> mset (es @ concat (map snd (filter P groups))) \<subseteq># mset (concat (map snd groups))"
proof (induction groups)
  case Nil
  then show ?case by simp
next
  case (Cons g groups)
  show ?case
  proof (cases "g = (key, es)")
    case True
    then show ?thesis
      using Cons.prems(2) filter_concat_subset [of P groups] by simp
  next
    case False
    then have "mset (es @ concat (map snd (filter P groups)))
        \<subseteq># mset (concat (map snd groups))"
      using Cons by simp
    then show ?thesis
      by (cases "P g") (auto intro: subset_mset.add_increasing)
  qed
qed

lemma mapSet_values: "(k', v') \<in> set (mapSet k v m) \<Longrightarrow> v' = v \<or> (k', v') \<in> set m"
  by (induction m) (auto split: if_splits)

lemma mergeLoop_values:
  assumes "set todo \<subseteq> set groups"
    and "\<forall>(k, v) \<in> set merged. v \<noteq> [] \<and> mset v \<subseteq># mset (concat (map snd groups))"
    and "\<forall>(k, v) \<in> set groups. v \<noteq> []"
  shows "\<forall>(k, v) \<in> set (mergeLoop localeCompare groups todo processed merged).
           v \<noteq> [] \<and> mset v \<subseteq># mset (concat (map snd groups))"
  using assms(1,2)
proof (induction todo arbitrary: processed merged)
  case Nil
  then show ?case by simp
next
  case (Cons g todo)
  obtain key es where g: "g = (key, es)"
    by (cases g)
  show ?case
  proof (cases "key \<in> processed")
    case True
    then show ?thesis
      using Cons g by simp
  next
    case False
    let ?P = "\<lambda>(otherKey, otherEvents).
        \<not> (otherKey = key \<or> otherKey \<in> processed) \<and> groupsAreRelated es otherEvents"
    let ?related = "es @ concat (map snd (filter ?P groups))"
    have member: "(key, es) \<in> set groups"
      using Cons.prems(1) g by simp
    then have "es \<noteq> []"
      using assms(3) by auto
    then have nonempty: "sortByTime localeCompare ?related \<noteq> []"
      by (simp add: sortByTime_props)
    have "mset ?related \<subseteq># mset (concat (map snd groups))"
      using member by (rule related_concat_subset) simp
    then have sub: "mset (sortByTime localeCompare ?related) \<subseteq># mset (concat (map snd groups))"
      by (simp only: sortByTime_props)
    have "\<forall>(k, v) \<in> set (mapSet key (sortByTime localeCompare ?related) merged).
        v \<noteq> [] \<and> mset v \<subseteq># mset (concat (map snd groups))"
      using Cons.prems(2) nonempty sub by (auto dest!: mapSet_values)
    moreover have "set todo \<subseteq> set groups"
      using Cons.prems(1) by simp
    ultimately show ?thesis
      using False g Cons.IH by (simp add: Let_def)
  qed
qed

lemma groupEvents_groups:
  assumes "(key, es) \<in> set (groupEvents localeCompare batch)"
  shows "es \<noteq> []" and "mset es \<subseteq># mset batch"
proof -
  have "\<forall>(k, v) \<in> set (mergeLoop localeCompare (seedGroups batch) (seedGroups batch) {} []).
      v \<noteq> [] \<and> mset v \<subseteq># mset (concat (map snd (seedGroups batch)))"
    by (rule mergeLoop_values) (simp_all add: seedGroups_nonempty)
  then have "es \<noteq> [] \<and> mset es \<subseteq># mset batch"
    using assms by (auto simp: groupEvents_def mergeRelatedGroups_def seedGroups_mset)
  then show "es \<noteq> []" and "mset es \<subseteq># mset batch"
    by simp_all
qed

section \<open>Causal graph builder: nodes and edges\<close>

lemma edgesFrom_ends:
  "edge \<in> set (edgesFrom getTime event rest)
   \<Longrightarrow> edge_from edge = event_id event \<and> edge_to edge \<in> event_id ` set rest"
  by (induction rest) (auto split: option.splits)

lemma allEdges_ends:
  "edge \<in> set (allEdges getTime es)
   \<Longrightarrow> edge_from edge \<in> event_id ` set es \<and> edge_to edge \<in> event_id ` set es"
  by (induction es) (auto dest: edgesFrom_ends)

lemma correlateLoop_episodes:
  assumes "correlateLoop saveEpisode ids localeCompare getTime groups n acc st = (Inr episodes, st')"
    and "ep \<in> set episodes"
  shows "ep \<in> set acc
     \<or> (\<exists>key es i. (key, es) \<in> set groups
          \<and> createEpisode localeCompare getTime (ids i) es (determineEpisodeType es) = Inr ep)"
  using assms
proof (induction groups arbitrary: n acc st)
  case Nil
  then show ?case by simp
next
  case (Cons g groups)
  obtain key es where g: "g = (key, es)"
    by (cases g)
  from Cons.prems(1) obtain episode st1 where
    created: "createEpisode localeCompare getTime (ids n) es (determineEpisodeType es) = Inr episode"
    and rest: "correlateLoop saveEpisode ids localeCompare getTime groups (Suc n) (acc @ [episode]) st1
        = (Inr episodes, st')"
    unfolding g by (auto simp: Let_def split: sum.splits option.splits)
  from Cons.IH [OF rest Cons.prems(2)] show ?case
    using created g by auto
qed

lemma distinct_map_submultiset:
  assumes "mset xs \<subseteq># mset ys" and "distinct (map f ys)"
  shows "distinct (map f xs)"
proof -
  have "mset (map f xs) \<subseteq># mset (map f ys)"
    using assms(1) by (simp add: image_mset_subseteq_mono)
  then have "count (mset (map f xs)) a \<le> count (mset (map f ys)) a" for a
    by (rule mset_subset_eq_count)
  moreover have "count (mset (map f ys)) a \<le> 1" for a
    using assms(2) by (simp add: distinct_count_atmost_1)
  ultimately have "count (mset (map f xs)) a \<le> 1" for a
    using le_trans by blast
  then show ?thesis
    unfolding distinct_count_atmost_1 by (metis count_mset_0_iff le_antisym not_less_eq_eq less_one linorder_not_le)
qed

text \<open>
  Claim C5. In every episode that \<open>correlate\<close> returns, the nodes of the graph are the
  ids listed in \<open>events\<close>, in the same order, so there is no extra node and none is
  missing; every edge goes from a node to a node; every node is the id of an event of
  the batch; and, the ids of the events of a batch being unique, no node occurs twice.
\<close>

theorem correlate_graph_nodes:
  assumes "correlate saveEpisode ids localeCompare getTime batch st = (Inr episodes, st')"
    and "ep \<in> set episodes"
  shows "nodes (graph ep) = events ep
     \<and> (\<forall>edge \<in> set (edges (graph ep)).
           edge_from edge \<in> set (nodes (graph ep)) \<and> edge_to edge \<in> set (nodes (graph ep)))
     \<and> set (nodes (graph ep)) \<subseteq> event_id ` set batch
     \<and> (distinct (map event_id batch) \<longrightarrow> distinct (nodes (graph ep)))"
proof -
  from correlateLoop_episodes [OF assms [unfolded correlate_def]]
  obtain key es i where group: "(key, es) \<in> set (groupEvents localeCompare batch)"
    and created: "createEpisode localeCompare getTime (ids i) es (determineEpisodeType es) = Inr ep"
    by auto
  have nonempty: "es \<noteq> []" and sub: "mset es \<subseteq># mset batch"
    using groupEvents_groups [OF group] by simp_all
  have sub': "mset (sortByTime localeCompare es) \<subseteq># mset batch"
    using sub by (simp only: sortByTime_props)
  have ep: "nodes (graph ep) = map event_id (sortByTime localeCompare es)"
    "events ep = map event_id (sortByTime localeCompare es)"
    "edges (graph ep) = allEdges getTime (sortByTime localeCompare es)"
    using created unfolding createEpisode_Inr [OF nonempty]
    by (auto simp: buildCausalGraph_def)
  have "set (sortByTime localeCompare es) \<subseteq> set batch"
    using sub' by (rule set_mset_mono [of "mset (sortByTime localeCompare es)" "mset batch", simplified])
  then have inside: "set (nodes (graph ep)) \<subseteq> event_id ` set batch"
    unfolding ep by auto
  have ends: "\<forall>edge \<in> set (edges (graph ep)).
      edge_from edge \<in> set (nodes (graph ep)) \<and> edge_to edge \<in> set (nodes (graph ep))"
    unfolding ep using allEdges_ends [of _ getTime "sortByTime localeCompare es"] by simp
  have "distinct (nodes (graph ep))" if "distinct (map event_id batch)"
    unfolding ep using sub' that by (rule distinct_map_submultiset)
  then show ?thesis
    using ep inside ends by simp
qed

section \<open>The examples, evaluated\<close>

lemma keys_examples:
  "getCorrelationKeys grantEvent = [''deployment:789'']"
  "getCorrelationKeys deployEvent = [''deployment:789'']"
  "getCorrelationKeys plainEarlier = []"
  "getCorrelationKeys plainLater = []"
  by (simp_all add: getCorrelationKeys_def corr_def grantEvent_def deployEvent_def
      plainEarlier_def plainLater_def exampleEvent_def noCorrelation_def)

lemma fields_examples:
  "time grantEvent = ''2024-01-15T10:00:00Z''"
  "time deployEvent = ''2024-01-15T10:05:00Z''"
  "time plainEarlier = ''2024-01-15T10:00:00Z''"
  "time plainLater = ''2024-01-15T10:05:00Z''"
  "event_id grantEvent = ''grant-1''"
  "event_id deployEvent = ''deploy-1''"
  "event_id plainEarlier = ''event-1''"
  "event_id plainLater = ''event-2''"
  by (simp_all add: grantEvent_def deployEvent_def plainEarlier_def plainLater_def exampleEvent_def)

lemmas grouping_steps =
  groupEvents_def seedGroups_def assignEvent_def scanEvents_def primaryKey_def
  mergeRelatedGroups_def groupsAreRelated_def Let_def

lemma groupEvents_scenario_D:
  "groupEvents timestampCollation [deployEvent, grantEvent] = [(''deployment:789'', [grantEvent, deployEvent])]"
  by (simp add: grouping_steps sortByTime_def keys_examples fields_examples
      timestampCollation_examples)

lemma groupEvents_plain:
  "groupEvents timestampCollation [plainEarlier, plainLater]
     = [(''event:event-1'', [plainEarlier]), (''event:event-2'', [plainLater])]"
  by (simp add: grouping_steps sortByTime_def keys_examples fields_examples)

theorem correlate_graph_nodes_witness:
  "\<exists>ep. correlate (boundedSave 5) exampleIds timestampCollation exampleGetTime [deployEvent, grantEvent] []
          = (Inr [ep], [ep])
     \<and> nodes (graph ep) = events ep \<and> distinct (nodes (graph ep))
     \<and> set (nodes (graph ep)) \<subseteq> {''deploy-1'', ''grant-1''}"
proof -
  obtain ep where run: "correlate (boundedSave 5) exampleIds timestampCollation exampleGetTime
      [deployEvent, grantEvent] [] = (Inr [ep], [ep])"
    by (auto simp add: correlate_def groupEvents_scenario_D createEpisode_Inr boundedSave_def Let_def)
  have "ep \<in> set [ep]"
    by simp
  from correlate_graph_nodes [OF run this] show ?thesis
    using run by (auto simp add: fields_examples)
qed

section \<open>\<open>correlate\<close> and a failing write\<close>

lemma assembleFrom_nonempty_groups:
  assumes "\<forall>(key, es) \<in> set groups. es \<noteq> []"
  shows "\<exists>eps. assembleFrom localeCompare getTime ids n groups = map Inr eps"
  using assms
proof (induction groups arbitrary: n)
  case Nil
  then show ?case by simp
next
  case (Cons g groups)
  obtain key es where g: "g = (key, es)"
    by (cases g)
  from Cons.prems g have "es \<noteq> []"
    by simp
  then obtain ep where "createEpisode localeCompare getTime (ids n) es (determineEpisodeType es) = Inr ep"
    by (simp add: createEpisode_Inr)
  moreover from Cons obtain eps where "assembleFrom localeCompare getTime ids (Suc n) groups = map Inr eps"
    by fastforce
  ultimately have "assembleFrom localeCompare getTime ids n (g # groups) = map Inr (ep # eps)"
    by (simp add: g)
  then show ?case
    by blast
qed

lemma correlateLoop_failure:
  assumes "assembleFrom localeCompare getTime ids n groups = map Inr eps"
    and "correlateLoop saveEpisode ids localeCompare getTime groups n acc st = (Inl err, st')"
  shows "err = StorageFailure
     \<and> (\<exists>saved failing rest. eps = saved @ failing # rest
           \<and> saveAll saveEpisode st saved = Some st' \<and> saveEpisode st' failing = None)"
  using assms
proof (induction groups arbitrary: n acc st eps)
  case Nil
  then show ?case by simp
next
  case (Cons g groups)
  obtain key es where g: "g = (key, es)"
    by (cases g)
  from Cons.prems(1) obtain ep eps' where eps: "eps = ep # eps'"
    and created: "createEpisode localeCompare getTime (ids n) es (determineEpisodeType es) = Inr ep"
    and rest: "assembleFrom localeCompare getTime ids (Suc n) groups = map Inr eps'"
    unfolding g by (cases eps) auto
  show ?case
  proof (cases "saveEpisode st ep")
    case None
    then have "err = StorageFailure" and "st' = st"
      using Cons.prems(2) created by (simp_all add: g Let_def)
    moreover have "eps = [] @ ep # eps'" and "saveAll saveEpisode st [] = Some st"
      by (simp_all add: eps)
    ultimately show ?thesis
      using None by blast
  next
    case (Some st1)
    then have "correlateLoop saveEpisode ids localeCompare getTime groups (Suc n) (acc @ [ep]) st1
        = (Inl err, st')"
      using Cons.prems(2) created by (simp add: g Let_def)
    from Cons.IH [OF rest this] obtain saved failing rest' where
      "err = StorageFailure" "eps' = saved @ failing # rest'"
      "saveAll saveEpisode st1 saved = Some st'" "saveEpisode st' failing = None"
      by blast
    then have "err = StorageFailure" "eps = (ep # saved) @ failing # rest'"
      "saveAll saveEpisode st (ep # saved) = Some st'" "saveEpisode st' failing = None"
      using Some by (simp_all add: eps)
    then show ?thesis
      by blast
  qed
qed

lemma correlateLoop_failing_write:
  assumes "assembleFrom localeCompare getTime ids n groups = map Inr (saved @ failing # rest)"
    and "saveAll saveEpisode st saved = Some st'" and "saveEpisode st' failing = None"
  shows "correlateLoop saveEpisode ids localeCompare getTime groups n acc st = (Inl StorageFailure, st')"
  using assms
proof (induction groups arbitrary: n acc st saved)
  case Nil
  then show ?case by simp
next
  case (Cons g groups)
  obtain key es where g: "g = (key, es)"
    by (cases g)
  show ?case
  proof (cases saved)
    case Nil
    then have "createEpisode localeCompare getTime (ids n) es (determineEpisodeType es) = Inr failing"
      and "st' = st"
      using Cons.prems(1,2) by (simp_all add: g)
    then show ?thesis
      using Cons.prems(3) by (simp add: g Let_def)
  next
    case (Cons ep saved')
    then have created: "createEpisode localeCompare getTime (ids n) es (determineEpisodeType es) = Inr ep"
      and rest: "assembleFrom localeCompare getTime ids (Suc n) groups = map Inr (saved' @ failing # rest)"
      using Cons.prems(1) by (simp_all add: g)
    from Cons.prems(2) obtain st1 where first: "saveEpisode st ep = Some st1"
      and more: "saveAll saveEpisode st1 saved' = Some st'"
      unfolding Cons by (auto split: option.splits)
    from Cons.IH [OF rest more Cons.prems(3)] show ?thesis
      using created first by (simp add: g Let_def)
  qed
qed

text \<open>
  Claim C1, as amended. \<open>correlate\<close> ends with a failure exactly when a write fails,
  and the failure is the one of the storage. It then returns no episode, and the
  storage is the one reached by the writes made before the failing one: the episodes
  assembled before it, in the order of their creation, have been written and stay
  written, and none of the later episodes is written.
\<close>

theorem correlate_failing_write_keeps_earlier_writes:
  "(correlate saveEpisode ids localeCompare getTime batch st = (Inl err, st'))
     = (err = StorageFailure
        \<and> (\<exists>saved failing rest.
              assembleFrom localeCompare getTime ids 0 (groupEvents localeCompare batch) = map Inr (saved @ failing # rest)
              \<and> saveAll saveEpisode st saved = Some st'
              \<and> saveEpisode st' failing = None))"
proof -
  have "\<forall>(key, es) \<in> set (groupEvents localeCompare batch). es \<noteq> []"
    using groupEvents_groups(1) by blast
  then obtain eps where eps: "assembleFrom localeCompare getTime ids 0 (groupEvents localeCompare batch) = map Inr eps"
    using assembleFrom_nonempty_groups by blast
  show ?thesis
  proof
    assume "correlate saveEpisode ids localeCompare getTime batch st = (Inl err, st')"
    from correlateLoop_failure [OF eps this [unfolded correlate_def]]
    show "err = StorageFailure
        \<and> (\<exists>saved failing rest.
              assembleFrom localeCompare getTime ids 0 (groupEvents localeCompare batch) = map Inr (saved @ failing # rest)
              \<and> saveAll saveEpisode st saved = Some st'
              \<and> saveEpisode st' failing = None)"
      unfolding eps by blast
  next
    assume "err = StorageFailure
        \<and> (\<exists>saved failing rest.
              assembleFrom localeCompare getTime ids 0 (groupEvents localeCompare batch) = map Inr (saved @ failing # rest)
              \<and> saveAll saveEpisode st saved = Some st'
              \<and> saveEpisode st' failing = None)"
    then obtain saved failing rest where "err = StorageFailure"
      and "assembleFrom localeCompare getTime ids 0 (groupEvents localeCompare batch) = map Inr (saved @ failing # rest)"
      and "saveAll saveEpisode st saved = Some st'" and "saveEpisode st' failing = None"
      by blast
    then show "correlate saveEpisode ids localeCompare getTime batch st = (Inl err, st')"
      unfolding correlate_def by (simp only: correlateLoop_failing_write)
  qed
qed

text \<open>
  The claim as the specification words it fails on a batch of two unrelated events and
  a storage with room for one episode: the second write fails, and the episode of the
  first event has been persisted.
\<close>

theorem correlate_partial_persistence_counterexample:
  "\<exists>ep. correlate (boundedSave 1) exampleIds timestampCollation exampleGetTime [plainEarlier, plainLater] []
          = (Inl StorageFailure, [ep])
     \<and> events ep = [''event-1'']"
  by (simp add: correlate_def groupEvents_plain createEpisode_Inr boundedSave_def Let_def
      sortByTime_def fields_examples)

theorem correlate_failing_write_keeps_earlier_writes_witness:
  "correlate (boundedSave 0) exampleIds timestampCollation exampleGetTime [deployEvent, grantEvent] []
     = (Inl StorageFailure, [])"
proof -
  obtain ep where "assembleFrom timestampCollation exampleGetTime exampleIds 0
      (groupEvents timestampCollation [deployEvent, grantEvent]) = map Inr ([] @ ep # [])"
    by (simp add: groupEvents_scenario_D createEpisode_Inr)
  moreover have "saveAll (boundedSave 0) [] [] = Some []" and "boundedSave 0 [] ep = None"
    by (simp_all add: boundedSave_def)
  ultimately show ?thesis
    using correlate_failing_write_keeps_earlier_writes [of "boundedSave 0" exampleIds
        timestampCollation exampleGetTime "[deployEvent, grantEvent]" "[]" StorageFailure "[]"]
    by blast
qed

section \<open>\<open>correlate\<close> when every write succeeds\<close>

lemma correlateLoop_success:
  assumes "assembleFrom localeCompare getTime ids n groups = map Inr eps"
    and "saveAll saveEpisode st eps = Some st'"
  shows "correlateLoop saveEpisode ids localeCompare getTime groups n acc st = (Inr (acc @ eps), st')"
  using assms
proof (induction groups arbitrary: n acc st eps)
  case Nil
  then show ?case by simp
next
  case (Cons g groups)
  obtain key es where g: "g = (key, es)"
    by (cases g)
  from Cons.prems(1) obtain ep eps' where eps: "eps = ep # eps'"
    and created: "createEpisode localeCompare getTime (ids n) es (determineEpisodeType es) = Inr ep"
    and rest: "assembleFrom localeCompare getTime ids (Suc n) groups = map Inr eps'"
    unfolding g by (cases eps) auto
  from Cons.prems(2) obtain st1 where first: "saveEpisode st ep = Some st1"
    and more: "saveAll saveEpisode st1 eps' = Some st'"
    unfolding eps by (auto split: option.splits)
  from Cons.IH [OF rest more] show ?case
    using created first by (simp add: g eps Let_def)
qed

lemma saveAll_never_fails:
  "\<forall>s ep. saveEpisode s ep \<noteq> None \<Longrightarrow> \<exists>st'. saveAll saveEpisode st eps = Some st'"
proof (induction eps arbitrary: st)
  case Nil
  then show ?case by simp
next
  case (Cons ep eps)
  then obtain st1 where "saveEpisode st ep = Some st1"
    by fastforce
  then show ?case
    using Cons by simp
qed

lemma sortByTime_single: "sortByTime localeCompare [e] = [e]"
  by (simp add: sortByTime_def)

lemma sortByTime_pair:
  "localeCompare (time a) (time b) \<le> 0 \<Longrightarrow> sortByTime localeCompare [a, b] = [a, b]"
  "\<not> localeCompare (time b) (time a) \<le> 0 \<Longrightarrow> sortByTime localeCompare [b, a] = [a, b]"
  by (simp_all add: sortByTime_def)

section \<open>Scenario A: a merged pull request and its deployment\<close>

text \<open>
  Claim C2. A batch of exactly two events, \<open>event1\<close> of kind PR_MERGED and \<open>event2\<close>
  of kind DEPLOYMENT, both with \<open>commit_sha\<close> \<open>abc123\<close> and no other correlation field,
  \<open>event2\<close> later than \<open>event1\<close> (\<open>localeCompare\<close> puts the time of \<open>event1\<close>
  before the time of \<open>event2\<close>), in either order in the batch: when the storage accepts
  the write, \<open>correlate\<close> returns exactly one episode, a DeploymentEpisode of the two
  events, whose graph has the one edge from \<open>event1\<close> to \<open>event2\<close>, of type CAUSES.
\<close>

theorem scenario_A_merge_causes_deployment:
  assumes "kind event1 = PR_MERGED" and "kind event2 = DEPLOYMENT"
    and "correlation event1 = Some (noCorrelation\<lparr>commit_sha := Some ''abc123''\<rparr>)"
    and "correlation event2 = Some (noCorrelation\<lparr>commit_sha := Some ''abc123''\<rparr>)"
    and "localeCompare (time event1) (time event2) < 0
      \<and> 0 < localeCompare (time event2) (time event1)"
    and "batch = [event1, event2] \<or> batch = [event2, event1]"
    and "\<forall>ep. saveEpisode st ep \<noteq> None"
  shows "\<exists>ep st'. correlate saveEpisode ids localeCompare getTime batch st = (Inr [ep], st')
     \<and> saveEpisode st ep = Some st'
     \<and> episode_type ep = DeploymentEpisode
     \<and> events ep = [event_id event1, event_id event2]
     \<and> nodes (graph ep) = [event_id event1, event_id event2]
     \<and> edges (graph ep) =
         [\<lparr>edge_from = event_id event1, edge_to = event_id event2, edge_type = CAUSES\<rparr>]"
proof -
  let ?group = "[event1, event2]"
  have keys: "getCorrelationKeys event1 = [''commit:abc123'']"
    "getCorrelationKeys event2 = [''commit:abc123'']"
    using assms(3,4) by (simp_all add: getCorrelationKeys_def corr_def noCorrelation_def)
  have sorted: "sortByTime localeCompare [event1, event2] = ?group"
    "sortByTime localeCompare [event2, event1] = ?group"
    using assms(5) by (simp_all add: sortByTime_pair)
  have groups: "groupEvents localeCompare batch = [(''commit:abc123'', ?group)]"
    using assms(6) by (auto simp: grouping_steps keys sorted)
  have type: "determineEpisodeType ?group = DeploymentEpisode"
    using assms(2) by (simp add: determineEpisodeType_def)
  have "inferRelationship getTime event1 event2 = Some CAUSES"
    using assms(1-4) by (simp add: inferRelationship_def corr_def)
  then have edges: "allEdges getTime ?group =
      [\<lparr>edge_from = event_id event1, edge_to = event_id event2, edge_type = CAUSES\<rparr>]"
    by simp
  obtain ep where ep: "createEpisode localeCompare getTime (ids 0) ?group DeploymentEpisode = Inr ep"
    by (simp add: createEpisode_Inr)
  then have fields: "episode_type ep = DeploymentEpisode"
    "events ep = [event_id event1, event_id event2]"
    "nodes (graph ep) = [event_id event1, event_id event2]"
    "edges (graph ep) = allEdges getTime ?group"
    by (auto simp: createEpisode_Inr sorted buildCausalGraph_def)
  obtain st' where saved: "saveEpisode st ep = Some st'"
    using assms(7) by fastforce
  have "correlate saveEpisode ids localeCompare getTime batch st = (Inr [ep], st')"
    by (simp add: correlate_def groups type ep saved)
  then show ?thesis
    using saved fields edges by auto
qed

theorem scenario_A_merge_causes_deployment_witness:
  "\<exists>ep. correlate (boundedSave 5) exampleIds timestampCollation exampleGetTime
          [prEvent\<lparr>correlation := Some (noCorrelation\<lparr>commit_sha := Some ''abc123''\<rparr>)\<rparr>,
           deployEvent\<lparr>correlation := Some (noCorrelation\<lparr>commit_sha := Some ''abc123''\<rparr>)\<rparr>]
          [] = (Inr [ep], [ep])
     \<and> episode_type ep = DeploymentEpisode
     \<and> edges (graph ep) =
         [\<lparr>edge_from = ''event-1'', edge_to = ''deploy-1'', edge_type = CAUSES\<rparr>]"
proof -
  let ?e1 = "prEvent\<lparr>correlation := Some (noCorrelation\<lparr>commit_sha := Some ''abc123''\<rparr>)\<rparr>"
  let ?e2 = "deployEvent\<lparr>correlation := Some (noCorrelation\<lparr>commit_sha := Some ''abc123''\<rparr>)\<rparr>"
  have "kind ?e1 = PR_MERGED" and "kind ?e2 = DEPLOYMENT"
    and "correlation ?e1 = Some (noCorrelation\<lparr>commit_sha := Some ''abc123''\<rparr>)"
    and "correlation ?e2 = Some (noCorrelation\<lparr>commit_sha := Some ''abc123''\<rparr>)"
    and "[?e1, ?e2] = [?e1, ?e2] \<or> [?e1, ?e2] = [?e2, ?e1]"
    and "\<forall>ep. boundedSave 5 [] ep \<noteq> None"
    by (simp_all add: prEvent_def deployEvent_def exampleEvent_def boundedSave_def)
  moreover have "timestampCollation (time ?e1) (time ?e2) < 0
      \<and> 0 < timestampCollation (time ?e2) (time ?e1)"
    by (simp add: prEvent_def deployEvent_def exampleEvent_def timestampCollation_examples)
  ultimately obtain ep st' where
    "correlate (boundedSave 5) exampleIds timestampCollation exampleGetTime [?e1, ?e2] [] = (Inr [ep], st')"
    "boundedSave 5 [] ep = Some st'" "episode_type ep = DeploymentEpisode"
    "edges (graph ep) =
       [\<lparr>edge_from = event_id ?e1, edge_to = event_id ?e2, edge_type = CAUSES\<rparr>]"
    using scenario_A_merge_causes_deployment [where ?event1.0 = ?e1 and ?event2.0 = ?e2
        and batch = "[?e1, ?e2]" and saveEpisode = "boundedSave 5" and st = "[]"
        and ids = exampleIds and localeCompare = timestampCollation
        and getTime = exampleGetTime]
    by blast
  then show ?thesis
    by (auto simp: boundedSave_def prEvent_def deployEvent_def exampleEvent_def)
qed

section \<open>Scenario C: two traces\<close>

lemma correlation_key_nonempty: "k \<in> set (getCorrelationKeys e) \<Longrightarrow> k \<noteq> []"
  by (auto simp: getCorrelationKeys_def split: if_splits)

lemma trace_key:
  "corr trace_id e = Some t \<Longrightarrow> t \<noteq> [] \<Longrightarrow> ''trace:'' @ t \<in> set (getCorrelationKeys e)"
  by (simp add: getCorrelationKeys_def)

lemma primaryKey_hd:
  "getCorrelationKeys e \<noteq> [] \<Longrightarrow> primaryKey (getCorrelationKeys e) e = hd (getCorrelationKeys e)"
  using correlation_key_nonempty [of "hd (getCorrelationKeys e)" e]
  by (cases "getCorrelationKeys e") (simp_all add: primaryKey_def)

lemma scanGroups_unchanged:
  "\<forall>(g, es) \<in> set groups. \<forall>x \<in> set es. key \<notin> set (getCorrelationKeys x)
   \<Longrightarrow> scanGroups key groups groupKey = groupKey"
  by (induction groups) (auto simp: scanEvents_def Let_def)

lemma scanKeys_unchanged:
  "\<forall>k \<in> set ks. \<forall>(g, es) \<in> set groups. \<forall>x \<in> set es. k \<notin> set (getCorrelationKeys x)
   \<Longrightarrow> scanKeys ks groups groupKey = groupKey"
  by (induction ks) (simp_all add: scanGroups_unchanged Let_def)

lemma scanGroups_found:
  assumes "\<forall>(g, es) \<in> set groups. g \<noteq> []"
  shows "(scanGroups key groups None = None
           \<and> (\<forall>(g, es) \<in> set groups. \<forall>x \<in> set es. key \<notin> set (getCorrelationKeys x)))
     \<or> (\<exists>g es. (g, es) \<in> set groups \<and> (\<exists>x \<in> set es. key \<in> set (getCorrelationKeys x))
           \<and> scanGroups key groups None = Some g)"
  using assms
proof (induction groups)
  case Nil
  then show ?case by simp
next
  case (Cons group groups)
  obtain g es where group: "group = (g, es)"
    by (cases group)
  have g: "g \<noteq> []"
    using Cons.prems group by simp
  show ?case
  proof (cases "\<exists>x \<in> set es. key \<in> set (getCorrelationKeys x)")
    case True
    then have "scanGroups key (group # groups) None = Some g"
      using g by (simp add: group scanEvents_def Let_def)
    then show ?thesis
      using True group by (auto simp del: scanGroups.simps)
  next
    case False
    then have same: "scanGroups key (group # groups) None = scanGroups key groups None"
      by (simp add: group scanEvents_def Let_def)
    have "\<forall>(g, es) \<in> set groups. g \<noteq> []"
      using Cons.prems by simp
    from Cons.IH [OF this] show ?thesis
      unfolding same using False group by (auto simp del: scanGroups.simps)
  qed
qed

lemma scanKeys_found:
  assumes "\<forall>(g, es) \<in> set groups. g \<noteq> []"
  shows "(scanKeys ks groups None = None
           \<and> (\<forall>k \<in> set ks. \<forall>(g, es) \<in> set groups. \<forall>x \<in> set es.
                 k \<notin> set (getCorrelationKeys x)))
     \<or> (\<exists>k \<in> set ks. \<exists>g es. (g, es) \<in> set groups
           \<and> (\<exists>x \<in> set es. k \<in> set (getCorrelationKeys x))
           \<and> scanKeys ks groups None = Some g)"
proof (induction ks)
  case Nil
  then show ?case by simp
next
  case (Cons k ks)
  from scanGroups_found [OF assms, of k] show ?case
  proof
    assume none: "scanGroups k groups None = None
        \<and> (\<forall>(g, es) \<in> set groups. \<forall>x \<in> set es. k \<notin> set (getCorrelationKeys x))"
    then have same: "scanKeys (k # ks) groups None = scanKeys ks groups None"
      by (simp add: Let_def)
    from Cons.IH show ?thesis
      unfolding same using none by (auto simp del: scanKeys.simps)
  next
    assume "\<exists>g es. (g, es) \<in> set groups \<and> (\<exists>x \<in> set es. k \<in> set (getCorrelationKeys x))
        \<and> scanGroups k groups None = Some g"
    then obtain g es where found: "(g, es) \<in> set groups"
      "\<exists>x \<in> set es. k \<in> set (getCorrelationKeys x)" "scanGroups k groups None = Some g"
      by blast
    then have "g \<noteq> []"
      using assms by auto
    then have "scanKeys (k # ks) groups None = Some g"
      using found(3) by (simp add: Let_def)
    then show ?thesis
      using found(1,2) by (auto simp del: scanKeys.simps)
  qed
qed

lemma assignEvent_new:
  assumes "\<forall>k \<in> set (getCorrelationKeys e). \<forall>(g, es) \<in> set groups. \<forall>x \<in> set es.
      k \<notin> set (getCorrelationKeys x)"
  shows "assignEvent groups e = pushEvent (primaryKey (getCorrelationKeys e) e) e groups"
  using assms by (simp add: assignEvent_def Let_def scanKeys_unchanged)

lemma assignEvent_join:
  assumes keys: "\<forall>(g, es) \<in> set groups. g \<noteq> []"
    and shared: "\<exists>k \<in> set (getCorrelationKeys e). \<exists>(g', es) \<in> set groups. \<exists>x \<in> set es.
      k \<in> set (getCorrelationKeys x)"
    and only: "\<forall>(g', es) \<in> set groups.
      (\<exists>k \<in> set (getCorrelationKeys e). \<exists>x \<in> set es. k \<in> set (getCorrelationKeys x))
        \<longrightarrow> g' = g"
  shows "assignEvent groups e = pushEvent g e groups"
proof -
  from scanKeys_found [OF keys, of "getCorrelationKeys e"] shared
  obtain k g' es where "k \<in> set (getCorrelationKeys e)" "(g', es) \<in> set groups"
    "\<exists>x \<in> set es. k \<in> set (getCorrelationKeys x)"
    "scanKeys (getCorrelationKeys e) groups None = Some g'"
    by blast
  moreover from this have "g' = g" and "g' \<noteq> []"
    using only keys by blast+
  ultimately show ?thesis
    by (simp add: assignEvent_def Let_def)
qed

lemma merge_two_unrelated:
  assumes "g1 \<noteq> g2" and "\<not> groupsAreRelated es1 es2" and "\<not> groupsAreRelated es2 es1"
  shows "mergeRelatedGroups localeCompare [(g1, es1), (g2, es2)] =
     [(g1, sortByTime localeCompare es1), (g2, sortByTime localeCompare es2)]"
  using assms by (simp add: mergeRelatedGroups_def Let_def)

text \<open>
  Two events \<open>P\<close> and \<open>Q\<close> that share a key and an event \<open>R\<close> that shares no key with
  either, in the three orders in which \<open>P\<close> comes before \<open>Q\<close>.
\<close>

lemma two_related_one_apart:
  assumes pq: "set (getCorrelationKeys P) \<inter> set (getCorrelationKeys Q) \<noteq> {}"
    and rp: "set (getCorrelationKeys R) \<inter> set (getCorrelationKeys P) = {}"
    and rq: "set (getCorrelationKeys R) \<inter> set (getCorrelationKeys Q) = {}"
    and r: "getCorrelationKeys R \<noteq> []"
    and batch: "batch \<in> {[P, Q, R], [P, R, Q], [R, P, Q]}"
  shows "\<exists>gP gR. groupEvents localeCompare batch
           = [(gP, sortByTime localeCompare [P, Q]), (gR, [R])]
         \<or> groupEvents localeCompare batch
           = [(gR, [R]), (gP, sortByTime localeCompare [P, Q])]"
proof -
  define gP where "gP = hd (getCorrelationKeys P)"
  define gR where "gR = hd (getCorrelationKeys R)"
  have p: "getCorrelationKeys P \<noteq> []"
    using pq by auto
  have gP_in: "gP \<in> set (getCorrelationKeys P)" and gR_in: "gR \<in> set (getCorrelationKeys R)"
    using p r by (simp_all add: gP_def gR_def)
  have gP: "gP \<noteq> []" and gR: "gR \<noteq> []"
    using gP_in gR_in correlation_key_nonempty by blast+
  have different: "gP \<noteq> gR"
    using gP_in gR_in rp by blast
  have primary: "primaryKey (getCorrelationKeys P) P = gP"
    "primaryKey (getCorrelationKeys R) R = gR"
    using p r by (simp_all add: primaryKey_hd gP_def gR_def)
  have shared: "\<exists>k \<in> set (getCorrelationKeys Q). k \<in> set (getCorrelationKeys P)"
    using pq by blast
  have apart: "\<forall>k \<in> set (getCorrelationKeys R). k \<notin> set (getCorrelationKeys P)
      \<and> k \<notin> set (getCorrelationKeys Q)"
    "\<forall>k \<in> set (getCorrelationKeys P). k \<notin> set (getCorrelationKeys R)"
    "\<forall>k \<in> set (getCorrelationKeys Q). k \<notin> set (getCorrelationKeys R)"
    using rp rq by blast+
  have first_P: "assignEvent [] P = [(gP, [P])]"
    by (simp add: assignEvent_new primary)
  have first_R: "assignEvent [] R = [(gR, [R])]"
    by (simp add: assignEvent_new primary)
  have new_R: "assignEvent groups R = pushEvent gR R groups"
    if "set (concat (map snd groups)) \<subseteq> {P, Q}" for groups
  proof -
    have "\<forall>k \<in> set (getCorrelationKeys R). \<forall>(g, es) \<in> set groups. \<forall>x \<in> set es.
        k \<notin> set (getCorrelationKeys x)"
    proof (intro ballI, clarify)
      fix k g es x
      assume "k \<in> set (getCorrelationKeys R)" "(g, es) \<in> set groups" "x \<in> set es"
        "k \<in> set (getCorrelationKeys x)"
      moreover from this have "x = P \<or> x = Q"
        using that by fastforce
      ultimately show False
        using apart(1) by blast
    qed
    then show ?thesis
      by (simp add: assignEvent_new primary)
  qed
  have new_P: "assignEvent [(gR, [R])] P = pushEvent gP P [(gR, [R])]"
  proof -
    have "\<forall>k \<in> set (getCorrelationKeys P). \<forall>(g, es) \<in> set [(gR, [R])]. \<forall>x \<in> set es.
        k \<notin> set (getCorrelationKeys x)"
      using apart(2) by simp
    then show ?thesis
      by (simp add: assignEvent_new primary)
  qed
  have join_Q: "assignEvent groups Q = pushEvent gP Q groups"
    if "groups = [(gP, [P])] \<or> groups = [(gP, [P]), (gR, [R])]
        \<or> groups = [(gR, [R]), (gP, [P])]" for groups
  proof (rule assignEvent_join)
    show "\<forall>(g, es) \<in> set groups. g \<noteq> []"
      using that gP gR by (elim disjE) simp_all
    show "\<exists>k \<in> set (getCorrelationKeys Q). \<exists>(g', es) \<in> set groups. \<exists>x \<in> set es.
        k \<in> set (getCorrelationKeys x)"
      using that shared by (elim disjE) (simp_all, blast+)
    show "\<forall>(g', es) \<in> set groups.
        (\<exists>k \<in> set (getCorrelationKeys Q). \<exists>x \<in> set es. k \<in> set (getCorrelationKeys x))
          \<longrightarrow> g' = gP"
      using that apart(3) by (elim disjE) simp_all
  qed
  have P_then_Q: "assignEvent [(gP, [P])] Q = [(gP, [P, Q])]"
    by (simp add: join_Q)
  have PQ_then_R: "assignEvent [(gP, [P, Q])] R = [(gP, [P, Q]), (gR, [R])]"
    using different by (simp add: new_R)
  have P_then_R: "assignEvent [(gP, [P])] R = [(gP, [P]), (gR, [R])]"
    using different by (simp add: new_R)
  have PR_then_Q: "assignEvent [(gP, [P]), (gR, [R])] Q = [(gP, [P, Q]), (gR, [R])]"
    by (simp add: join_Q)
  have R_then_P: "assignEvent [(gR, [R])] P = [(gR, [R]), (gP, [P])]"
    using different by (simp add: new_P)
  have RP_then_Q: "assignEvent [(gR, [R]), (gP, [P])] Q = [(gR, [R]), (gP, [P, Q])]"
    using different by (simp add: join_Q)
  have unrelated: "\<not> groupsAreRelated [P, Q] [R]" "\<not> groupsAreRelated [R] [P, Q]"
    using rp rq by (simp add: groupsAreRelated_def; blast)+
  have merged: "mergeRelatedGroups localeCompare [(gP, [P, Q]), (gR, [R])]
      = [(gP, sortByTime localeCompare [P, Q]), (gR, [R])]"
    "mergeRelatedGroups localeCompare [(gR, [R]), (gP, [P, Q])]
      = [(gR, [R]), (gP, sortByTime localeCompare [P, Q])]"
    using different unrelated by (simp_all add: merge_two_unrelated sortByTime_def)
  from batch have "groupEvents localeCompare batch
           = [(gP, sortByTime localeCompare [P, Q]), (gR, [R])]
         \<or> groupEvents localeCompare batch
           = [(gR, [R]), (gP, sortByTime localeCompare [P, Q])]"
  proof (elim insertE emptyE)
    assume "batch = [P, Q, R]"
    then show ?thesis
      by (simp add: groupEvents_def seedGroups_def first_P P_then_Q PQ_then_R merged)
  next
    assume "batch = [P, R, Q]"
    then show ?thesis
      by (simp add: groupEvents_def seedGroups_def first_P P_then_R PR_then_Q merged)
  next
    assume "batch = [R, P, Q]"
    then show ?thesis
      by (simp add: groupEvents_def seedGroups_def first_R R_then_P RP_then_Q merged)
  qed
  then show ?thesis
    by blast
qed

text \<open>
  Claim C3, as amended. A batch of exactly three events \<open>A\<close>, \<open>B\<close> and \<open>C\<close>, in any
  order, where \<open>A\<close> and \<open>B\<close> carry the \<open>trace_id\<close> \<open>X\<close>, \<open>C\<close> carries the \<open>trace_id\<close>
  \<open>Y\<close>, and no correlation key of \<open>C\<close> is a key of \<open>A\<close> or of \<open>B\<close> (\<open>A\<close> and \<open>B\<close> may
  carry any further fields): the grouping gives exactly two groups, one with exactly
  \<open>A\<close> and \<open>B\<close> and one with exactly \<open>C\<close>, and, when the storage accepts the writes,
  \<open>correlate\<close> returns exactly two episodes, one of \<open>A\<close> and \<open>B\<close> and one of \<open>C\<close>.
\<close>

theorem scenario_C_two_trace_groups:
  assumes "corr trace_id A = Some ''X''" and "corr trace_id B = Some ''X''"
    and "corr trace_id C = Some ''Y''"
    and "set (getCorrelationKeys C) \<inter> set (getCorrelationKeys A) = {}"
    and "set (getCorrelationKeys C) \<inter> set (getCorrelationKeys B) = {}"
    and "batch \<in> {[A, B, C], [A, C, B], [B, A, C], [B, C, A], [C, A, B], [C, B, A]}"
    and "\<forall>s ep. saveEpisode s ep \<noteq> None"
  shows "\<exists>groupAB groupC ep1 ep2 eps st'.
       mset (map snd (groupEvents localeCompare batch)) = {#groupAB, groupC#}
     \<and> mset groupAB = {#A, B#} \<and> groupC = [C]
     \<and> correlate saveEpisode ids localeCompare getTime batch st = (Inr eps, st')
     \<and> mset eps = {#ep1, ep2#}
     \<and> mset (events ep1) = {#event_id A, event_id B#} \<and> events ep2 = [event_id C]"
proof -
  have trace: "''trace:X'' \<in> set (getCorrelationKeys A)"
    "''trace:X'' \<in> set (getCorrelationKeys B)" "''trace:Y'' \<in> set (getCorrelationKeys C)"
    using assms(1-3) trace_key [of _ "''X''"] trace_key [of _ "''Y''"] by simp_all
  have ab: "set (getCorrelationKeys A) \<inter> set (getCorrelationKeys B) \<noteq> {}"
    and ba: "set (getCorrelationKeys B) \<inter> set (getCorrelationKeys A) \<noteq> {}"
    using trace(1,2) by blast+
  have c: "getCorrelationKeys C \<noteq> []"
    using trace(3) by auto
  from assms(6) consider "batch \<in> {[A, B, C], [A, C, B], [C, A, B]}"
    | "batch \<in> {[B, A, C], [B, C, A], [C, B, A]}"
    by blast
  then have "\<exists>groupAB g gC. mset groupAB = {#A, B#}
      \<and> (groupEvents localeCompare batch = [(g, groupAB), (gC, [C])]
           \<or> groupEvents localeCompare batch = [(gC, [C]), (g, groupAB)])"
  proof cases
    case 1
    from two_related_one_apart [OF ab assms(4,5) c 1, of localeCompare]
    obtain g gC where
      "groupEvents localeCompare batch = [(g, sortByTime localeCompare [A, B]), (gC, [C])]
       \<or> groupEvents localeCompare batch = [(gC, [C]), (g, sortByTime localeCompare [A, B])]"
      by blast
    moreover have "mset (sortByTime localeCompare [A, B]) = {#A, B#}"
      by (simp add: sortByTime_props)
    ultimately show ?thesis
      by blast
  next
    case 2
    from two_related_one_apart [OF ba assms(5,4) c 2, of localeCompare]
    obtain g gC where
      "groupEvents localeCompare batch = [(g, sortByTime localeCompare [B, A]), (gC, [C])]
       \<or> groupEvents localeCompare batch = [(gC, [C]), (g, sortByTime localeCompare [B, A])]"
      by blast
    moreover have "mset (sortByTime localeCompare [B, A]) = {#A, B#}"
      by (simp add: sortByTime_props)
    ultimately show ?thesis
      by blast
  qed
  then obtain groupAB g gC where ab_members: "mset groupAB = {#A, B#}"
    and groups: "groupEvents localeCompare batch = [(g, groupAB), (gC, [C])]
        \<or> groupEvents localeCompare batch = [(gC, [C]), (g, groupAB)]"
    by blast
  have nonempty: "groupAB \<noteq> []"
    using ab_members by auto
  have two: "mset (map snd (groupEvents localeCompare batch)) = {#groupAB, [C]#}"
    using groups by auto
  define episode where "episode n es =
    \<lparr>episode_id = ids n, episode_type = determineEpisodeType es,
     start_time = time (hd (sortByTime localeCompare es)),
     end_time = time (last (sortByTime localeCompare es)),
     primary_actor = mostCommon (countAll (\<lambda>e. actor_id (actor e)) actor es),
     primary_target = mostCommon (countAll (\<lambda>e. target_id (target e)) target es),
     events = map event_id (sortByTime localeCompare es),
     graph = buildCausalGraph getTime (sortByTime localeCompare es)\<rparr>" for n es
  have created: "createEpisode localeCompare getTime (ids n) es (determineEpisodeType es)
      = Inr (episode n es)"
    if "es \<noteq> []" for n es
    using that by (simp add: createEpisode_Inr episode_def)
  have "mset (map event_id (sortByTime localeCompare groupAB))
      = image_mset event_id (mset (sortByTime localeCompare groupAB))"
    by simp
  then have events_ab: "mset (events (episode n groupAB)) = {#event_id A, event_id B#}" for n
    by (simp add: episode_def sortByTime_props ab_members)
  have events_c: "events (episode n [C]) = [event_id C]" for n
    by (simp add: episode_def sortByTime_def)
  from groups show ?thesis
  proof
    assume group_list: "groupEvents localeCompare batch = [(g, groupAB), (gC, [C])]"
    let ?eps = "[episode 0 groupAB, episode 1 [C]]"
    have "assembleFrom localeCompare getTime ids 0 (groupEvents localeCompare batch)
        = map Inr ?eps"
      by (simp add: group_list created nonempty)
    moreover obtain st' where "saveAll saveEpisode st ?eps = Some st'"
      using saveAll_never_fails [OF assms(7)] by blast
    ultimately have "correlate saveEpisode ids localeCompare getTime batch st = (Inr ?eps, st')"
      unfolding correlate_def using correlateLoop_success [where acc = "[]"] by fastforce
    moreover have "mset ?eps = {#episode 0 groupAB, episode 1 [C]#}"
      by simp
    ultimately show ?thesis
      using two ab_members events_ab events_c by blast
  next
    assume group_list: "groupEvents localeCompare batch = [(gC, [C]), (g, groupAB)]"
    let ?eps = "[episode 0 [C], episode 1 groupAB]"
    have "assembleFrom localeCompare getTime ids 0 (groupEvents localeCompare batch)
        = map Inr ?eps"
      by (simp add: group_list created nonempty)
    moreover obtain st' where "saveAll saveEpisode st ?eps = Some st'"
      using saveAll_never_fails [OF assms(7)] by blast
    ultimately have "correlate saveEpisode ids localeCompare getTime batch st = (Inr ?eps, st')"
      unfolding correlate_def using correlateLoop_success [where acc = "[]"] by fastforce
    moreover have "mset ?eps = {#episode 1 groupAB, episode 0 [C]#}"
      by simp
    ultimately show ?thesis
      using two ab_members events_ab events_c by blast
  qed
qed

theorem scenario_C_two_trace_groups_witness:
  "\<exists>ep1 ep2 eps st'.
       correlate unboundedSave exampleIds timestampCollation exampleGetTime
         [traceA, traceB, traceC] [] = (Inr eps, st')
     \<and> mset eps = {#ep1, ep2#}
     \<and> mset (events ep1) = {#''A'', ''B''#} \<and> events ep2 = [''C'']"
proof -
  have keys: "getCorrelationKeys traceA = [''trace:X'']"
    "getCorrelationKeys traceB = [''trace:X'']" "getCorrelationKeys traceC = [''trace:Y'']"
    by (simp_all add: getCorrelationKeys_def corr_def traceA_def traceB_def traceC_def
        exampleEvent_def noCorrelation_def)
  have "corr trace_id traceA = Some ''X''" and "corr trace_id traceB = Some ''X''"
    and "corr trace_id traceC = Some ''Y''"
    by (simp_all add: corr_def traceA_def traceB_def traceC_def exampleEvent_def
        noCorrelation_def)
  moreover have "set (getCorrelationKeys traceC) \<inter> set (getCorrelationKeys traceA) = {}"
    and "set (getCorrelationKeys traceC) \<inter> set (getCorrelationKeys traceB) = {}"
    by (simp_all add: keys)
  moreover have "[traceA, traceB, traceC] \<in> {[traceA, traceB, traceC],
      [traceA, traceC, traceB], [traceB, traceA, traceC], [traceB, traceC, traceA],
      [traceC, traceA, traceB], [traceC, traceB, traceA]}"
    and "\<forall>s ep. unboundedSave s ep \<noteq> None"
    by (simp_all add: unboundedSave_def)
  ultimately obtain ep1 ep2 eps st' where
    run: "correlate unboundedSave exampleIds timestampCollation exampleGetTime
        [traceA, traceB, traceC] [] = (Inr eps, st')"
    and eps: "mset eps = {#ep1, ep2#}"
    and events: "mset (events ep1) = {#event_id traceA, event_id traceB#}"
      "events ep2 = [event_id traceC]"
    using scenario_C_two_trace_groups [where A = traceA and B = traceB and C = traceC
        and batch = "[traceA, traceB, traceC]" and saveEpisode = unboundedSave
        and ids = exampleIds and localeCompare = timestampCollation
        and getTime = exampleGetTime and st = "[]"]
    by blast
  have "mset (events ep1) = {#''A'', ''B''#}"
    unfolding events by (simp add: traceA_def traceB_def exampleEvent_def)
  moreover have "events ep2 = [''C'']"
    unfolding events by (simp add: traceC_def exampleEvent_def)
  ultimately show ?thesis
    using run eps by blast
qed

text \<open>
  The claim as the specification words it fails on three events that share no field
  but the \<open>trace_id\<close> of \<open>A\<close> and \<open>B\<close>: \<open>A\<close> is pull request \<open>c\<close> of the instance
  \<open>a:b\<close> and \<open>C\<close> is pull request \<open>b:c\<close> of the instance \<open>a\<close>, so both carry the key
  \<open>pr:a:b:c\<close>, and the three events form one group.
\<close>

theorem scenario_C_key_collision_counterexample:
  "map (\<lambda>e. (corr trace_id e, corr pr_number e, corr commit_sha e, corr ticket_id e,
              corr deployment_id e)) [colonA, colonB, colonC]
     = [(Some ''X'', Some ''c'', None, None, None),
        (Some ''X'', None, None, None, None),
        (Some ''Y'', Some ''b:c'', None, None, None)]
   \<and> map (\<lambda>group. map event_id (snd group))
        (groupEvents timestampCollation [colonA, colonB, colonC])
     = [[''A'', ''B'', ''C'']]"
proof (intro conjI)
  show "map (\<lambda>e. (corr trace_id e, corr pr_number e, corr commit_sha e, corr ticket_id e,
              corr deployment_id e)) [colonA, colonB, colonC]
     = [(Some ''X'', Some ''c'', None, None, None),
        (Some ''X'', None, None, None, None),
        (Some ''Y'', Some ''b:c'', None, None, None)]"
    by (simp add: corr_def colonA_def colonB_def colonC_def exampleEvent_def noCorrelation_def)
  have keys: "getCorrelationKeys colonA = [''pr:a:b:c'', ''trace:X'']"
    "getCorrelationKeys colonB = [''trace:X'']"
    "getCorrelationKeys colonC = [''pr:a:b:c'', ''trace:Y'']"
    by (simp_all add: getCorrelationKeys_def corr_def colonA_def colonB_def colonC_def
        exampleEvent_def noCorrelation_def)
  have fields: "time colonA = ''2024-01-15T10:00:00Z''" "time colonB = ''2024-01-15T10:00:00Z''"
    "time colonC = ''2024-01-15T10:00:00Z''"
    "event_id colonA = ''A''" "event_id colonB = ''B''" "event_id colonC = ''C''"
    by (simp_all add: colonA_def colonB_def colonC_def exampleEvent_def)
  have "groupEvents timestampCollation [colonA, colonB, colonC]
      = [(''pr:a:b:c'', [colonA, colonB, colonC])]"
    by (simp add: grouping_steps sortByTime_def keys fields timestampCollation_same)
  then show "map (\<lambda>group. map event_id (snd group))
        (groupEvents timestampCollation [colonA, colonB, colonC])
     = [[''A'', ''B'', ''C'']]"
    by (simp add: fields)
qed

section \<open>Episode assembler: the most common actor and target\<close>

lemma firstKeys_props:
  "set (firstKeys keyOf es) = keyOf ` set es" "distinct (firstKeys keyOf es)"
  by (simp_all add: firstKeys_def)

lemma firstKeys_snoc:
  "firstKeys keyOf (es @ [e]) =
     (if keyOf e \<in> keyOf ` set es then firstKeys keyOf es else firstKeys keyOf es @ [keyOf e])"
  by (simp add: firstKeys_def)

lemma firstKeys_append:
  "firstKeys keyOf (xs @ ys) =
     firstKeys keyOf xs @ filter (\<lambda>k. k \<notin> keyOf ` set xs) (firstKeys keyOf ys)"
proof (induction ys rule: rev_induct)
  case Nil
  then show ?case by (simp add: firstKeys_def)
next
  case (snoc y ys)
  have "firstKeys keyOf (xs @ ys @ [y]) = firstKeys keyOf ((xs @ ys) @ [y])"
    by simp
  also have "\<dots> = (if keyOf y \<in> keyOf ` set (xs @ ys) then firstKeys keyOf (xs @ ys)
      else firstKeys keyOf (xs @ ys) @ [keyOf y])"
    by (rule firstKeys_snoc)
  finally show ?case
    using snoc by (auto simp: firstKeys_snoc)
qed

lemma firstKeys_first_occurrence:
  assumes "\<forall>x \<in> set pre. keyOf x \<noteq> keyOf e"
  shows "\<exists>later. firstKeys keyOf (pre @ e # post) = firstKeys keyOf pre @ keyOf e # later"
proof -
  have "firstKeys keyOf (e # post) = firstKeys keyOf ([e] @ post)"
    by simp
  also have "\<dots> = keyOf e # filter (\<lambda>k. k \<notin> keyOf ` set [e]) (firstKeys keyOf post)"
    unfolding firstKeys_append by (simp add: firstKeys_def)
  finally have "firstKeys keyOf (e # post) =
      keyOf e # filter (\<lambda>k. k \<notin> keyOf ` set [e]) (firstKeys keyOf post)" .
  moreover have "keyOf e \<notin> keyOf ` set pre"
    using assms by auto
  ultimately show ?thesis
    by (simp add: firstKeys_append [of keyOf pre])
qed

lemma distinct_split_unique:
  "distinct (xs @ a # ys) \<Longrightarrow> xs @ a # ys = xs' @ a # ys' \<Longrightarrow> xs = xs'"
proof (induction xs arbitrary: xs')
  case Nil
  then show ?case by (cases xs') auto
next
  case (Cons x xs)
  show ?case
  proof (cases xs')
    case Nil
    then have "x = a"
      using Cons.prems(2) by simp
    then show ?thesis
      using Cons.prems(1) by simp
  next
    case (Cons x' xs'')
    then have "x = x'" and "xs @ a # ys = xs'' @ a # ys'"
      using Cons.prems(2) by simp_all
    moreover have "distinct (xs @ a # ys)"
      using Cons.prems(1) by simp
    ultimately show ?thesis
      using Cons.IH Cons by blast
  qed
qed

lemma countOne_keyed:
  assumes "distinct ks"
  shows "countOne k v (map (\<lambda>k'. (k', F k', G k')) ks) =
     (if k \<in> set ks then map (\<lambda>k'. (k', F k', if k' = k then G k' + 1 else G k')) ks
      else map (\<lambda>k'. (k', F k', G k')) ks @ [(k, v, 1)])"
  using assms by (induction ks) auto

lemma countAll_snoc:
  "countAll keyOf valueOf (es @ [e]) = countOne (keyOf e) (valueOf e) (countAll keyOf valueOf es)"
  by (simp add: countAll_def)

lemma countAll_firstKeys:
  "countAll keyOf valueOf es =
     map (\<lambda>k. (k, valueOf (hd (filter (\<lambda>e. keyOf e = k) es)),
               length (filter (\<lambda>e. keyOf e = k) es)))
       (firstKeys keyOf es)"
proof (induction es rule: rev_induct)
  case Nil
  then show ?case by (simp add: countAll_def firstKeys_def)
next
  case (snoc e es)
  let ?F = "\<lambda>es k. valueOf (hd (filter (\<lambda>e. keyOf e = k) es))"
  let ?G = "\<lambda>es k. length (filter (\<lambda>e. keyOf e = k) es)"
  let ?ks = "firstKeys keyOf es"
  have old: "?F (es @ [e]) k = ?F es k" if "k \<in> set ?ks" for k
  proof -
    from that have "filter (\<lambda>e. keyOf e = k) es \<noteq> []"
      by (auto simp: firstKeys_props filter_empty_conv)
    then show ?thesis by simp
  qed
  have cnt: "?G (es @ [e]) k = (if k = keyOf e then ?G es k + 1 else ?G es k)" for k
    by auto
  have step: "countAll keyOf valueOf (es @ [e]) =
      countOne (keyOf e) (valueOf e) (map (\<lambda>k. (k, ?F es k, ?G es k)) ?ks)"
    by (simp only: countAll_snoc snoc.IH)
  show ?case
  proof (cases "keyOf e \<in> set ?ks")
    case True
    then have "countAll keyOf valueOf (es @ [e]) =
        map (\<lambda>k. (k, ?F es k, if k = keyOf e then ?G es k + 1 else ?G es k)) ?ks"
      unfolding step by (simp add: countOne_keyed [OF firstKeys_props(2)])
    also have "\<dots> = map (\<lambda>k. (k, ?F (es @ [e]) k, ?G (es @ [e]) k)) ?ks"
      by (rule map_cong [OF refl]) (simp only: old cnt)
    finally show ?thesis
      using True by (simp add: firstKeys_snoc firstKeys_props)
  next
    case False
    then have none: "filter (\<lambda>x. keyOf x = keyOf e) es = []"
      unfolding firstKeys_props filter_empty_conv by (metis imageI)
    from False have "countAll keyOf valueOf (es @ [e]) =
        map (\<lambda>k. (k, ?F es k, ?G es k)) ?ks @ [(keyOf e, valueOf e, 1)]"
      unfolding step by (simp add: countOne_keyed [OF firstKeys_props(2)])
    also have "map (\<lambda>k. (k, ?F es k, ?G es k)) ?ks
        = map (\<lambda>k. (k, ?F (es @ [e]) k, ?G (es @ [e]) k)) ?ks"
      using False by (intro map_cong [OF refl]) (auto simp only: old cnt split: if_splits)
    finally show ?thesis
      using False by (simp add: firstKeys_snoc firstKeys_props none)
  qed
qed

lemma hd_sort_key_first_least:
  fixes f :: "'a \<Rightarrow> 'b::linorder"
  assumes "xs \<noteq> []"
  shows "\<exists>pre x post. xs = pre @ x # post \<and> hd (sort_key f xs) = x
     \<and> (\<forall>y \<in> set xs. f x \<le> f y) \<and> (\<forall>y \<in> set pre. f x < f y)"
  using assms
proof (induction xs)
  case Nil
  then show ?case by simp
next
  case (Cons a xs)
  show ?case
  proof (cases "xs = []")
    case True
    then have "a # xs = [] @ a # []" and "hd (sort_key f (a # xs)) = a"
      by simp_all
    then show ?thesis
      using True by fastforce
  next
    case False
    from Cons.IH [OF False] obtain pre x post where split: "xs = pre @ x # post"
      and hd: "hd (sort_key f xs) = x"
      and least: "\<forall>y \<in> set xs. f x \<le> f y" and strict: "\<forall>y \<in> set pre. f x < f y"
      by blast
    have "sort_key f xs \<noteq> []"
      using False by (metis length_0_conv length_sort)
    then obtain rest where sorted: "sort_key f xs = x # rest"
      using hd by (cases "sort_key f xs") auto
    show ?thesis
    proof (cases "f a \<le> f x")
      case True
      then have "hd (sort_key f (a # xs)) = a"
        by (simp add: sorted)
      moreover have "\<forall>y \<in> set (a # xs). f a \<le> f y"
        using True least by auto
      moreover have "a # xs = [] @ a # xs"
        by simp
      ultimately show ?thesis
        by (metis empty_iff list.set(1))
    next
      case False
      then have "hd (sort_key f (a # xs)) = x"
        by (simp add: sorted)
      moreover have "\<forall>y \<in> set (a # xs). f x \<le> f y"
        using False least by auto
      moreover have "\<forall>y \<in> set (a # pre). f x < f y"
        using False strict by auto
      moreover have "a # xs = (a # pre) @ x # post"
        by (simp add: split)
      ultimately show ?thesis
        by blast
    qed
  qed
qed

lemma mostCommon_countAll:
  assumes "es \<noteq> []"
  shows "\<exists>pre e post. es = pre @ e # post
     \<and> mostCommon (countAll keyOf valueOf es) = Some (valueOf e)
     \<and> (\<forall>x \<in> set es. occurrences keyOf es x \<le> occurrences keyOf es e)
     \<and> (\<forall>x \<in> set pre. occurrences keyOf es x < occurrences keyOf es e)"
proof -
  let ?F = "\<lambda>k. valueOf (hd (filter (\<lambda>e. keyOf e = k) es))"
  let ?G = "\<lambda>k. length (filter (\<lambda>e. keyOf e = k) es)"
  let ?entry = "\<lambda>k. (k, ?F k, ?G k)"
  let ?ks = "firstKeys keyOf es"
  let ?counts = "countAll keyOf valueOf es"
  let ?f = "\<lambda>(k, v, n). - int n" 
  have counts: "?counts = map ?entry ?ks"
    by (rule countAll_firstKeys)
  have "?ks \<noteq> []"
    using assms firstKeys_props(1) [of keyOf es] by (metis image_is_empty set_empty)
  then have "?counts \<noteq> []"
    by (simp add: counts)
  from hd_sort_key_first_least [OF this, of ?f]
  obtain cpre c cpost where csplit: "?counts = cpre @ c # cpost"
    and chd: "hd (sort_key ?f ?counts) = c"
    and cleast: "\<forall>y \<in> set ?counts. ?f c \<le> ?f y" and cstrict: "\<forall>y \<in> set cpre. ?f c < ?f y"
    by blast
  from csplit [unfolded counts] obtain kpre k kpost where ksplit: "?ks = kpre @ k # kpost"
    and cpre: "cpre = map ?entry kpre" and c: "c = ?entry k"
    by (auto simp: map_eq_append_conv map_eq_Cons_conv)
  have most: "?G k' \<le> ?G k" if "k' \<in> set ?ks" for k'
  proof -
    from that have "?entry k' \<in> set ?counts"
      unfolding counts by simp
    with cleast show ?thesis
      unfolding c by auto
  qed
  have first: "?G k' < ?G k" if "k' \<in> set kpre" for k'
  proof -
    from that have "?entry k' \<in> set cpre"
      unfolding cpre by simp
    with cstrict show ?thesis
      unfolding c by auto
  qed
  have "k \<in> keyOf ` set es"
    using ksplit firstKeys_props(1) [of keyOf es] by (metis in_set_conv_decomp)
  then have "\<exists>e \<in> set es. keyOf e = k"
    by auto
  from split_list_first_prop [OF this]
  obtain pre e post where es: "es = pre @ e # post" and e: "keyOf e = k"
    and before: "\<forall>x \<in> set pre. keyOf x \<noteq> k"
    by blast
  have "filter (\<lambda>x. keyOf x = k) pre = []"
    using before by (simp add: filter_empty_conv)
  then have "hd (filter (\<lambda>x. keyOf x = k) es) = e"
    by (simp add: es e)
  then have winner_value: "?F k = valueOf e"
    by simp
  have "sort_key ?f ?counts \<noteq> []"
    using \<open>?counts \<noteq> []\<close> by (metis length_0_conv length_sort)
  then have winner: "mostCommon ?counts = Some (valueOf e)"
    using chd c winner_value by (cases "sort_key ?f ?counts") (auto simp: mostCommon_def)
  obtain later where "?ks = firstKeys keyOf pre @ k # later"
    using firstKeys_first_occurrence [of pre keyOf e post] before e es by auto
  then have kpre: "kpre = firstKeys keyOf pre"
    using distinct_split_unique [of kpre k kpost "firstKeys keyOf pre" later]
      firstKeys_props(2) [of keyOf es] ksplit by simp
  have occ: "occurrences keyOf es x = ?G (keyOf x)" for x
    by (simp add: occurrences_def)
  have "occurrences keyOf es x \<le> occurrences keyOf es e" if "x \<in> set es" for x
    using that most [of "keyOf x"] by (simp add: occ e firstKeys_props)
  moreover have "occurrences keyOf es x < occurrences keyOf es e" if "x \<in> set pre" for x
    using that first [of "keyOf x"] by (simp add: occ e kpre firstKeys_props)
  ultimately show ?thesis
    using es winner by blast
qed

text \<open>
  Claim C9. For a non-empty group, \<open>primary_actor\<close> is the actor of an event \<open>e\<close> of
  the group such that no event of the group has an actor id that occurs more often
  than the one of \<open>e\<close>, and every event before \<open>e\<close>, in the given order of the group,
  has an actor id that occurs strictly less often: among the actor ids with the
  highest count the one met first wins. \<open>primary_target\<close> is the same over the target
  ids.
\<close>

theorem primary_actor_and_target_most_common:
  assumes "es \<noteq> []"
  shows "\<exists>ep. createEpisode localeCompare getTime newId es type = Inr ep
     \<and> (\<exists>pre e post. es = pre @ e # post \<and> primary_actor ep = Some (actor e)
          \<and> (\<forall>x \<in> set es. occurrences (\<lambda>e. actor_id (actor e)) es x
                \<le> occurrences (\<lambda>e. actor_id (actor e)) es e)
          \<and> (\<forall>x \<in> set pre. occurrences (\<lambda>e. actor_id (actor e)) es x
                < occurrences (\<lambda>e. actor_id (actor e)) es e))
     \<and> (\<exists>pre e post. es = pre @ e # post \<and> primary_target ep = Some (target e)
          \<and> (\<forall>x \<in> set es. occurrences (\<lambda>e. target_id (target e)) es x
                \<le> occurrences (\<lambda>e. target_id (target e)) es e)
          \<and> (\<forall>x \<in> set pre. occurrences (\<lambda>e. target_id (target e)) es x
                < occurrences (\<lambda>e. target_id (target e)) es e))"
  unfolding createEpisode_Inr [OF assms]
  using mostCommon_countAll [OF assms, of "\<lambda>e. actor_id (actor e)" actor]
    mostCommon_countAll [OF assms, of "\<lambda>e. target_id (target e)" target]
  by simp

theorem primary_actor_and_target_most_common_witness:
  "\<exists>ep. createEpisode timestampCollation exampleGetTime ''episode-1'' tieGroup CustomEpisode = Inr ep
     \<and> map_option actor_id (primary_actor ep) = Some ''bob''
     \<and> map_option target_id (primary_target ep) = Some ''web''"
proof -
  have nonempty: "tieGroup \<noteq> []"
    by (simp add: tieGroup_def)
  have actors: "\<forall>x \<in> set tieGroup. occurrences (\<lambda>e. actor_id (actor e)) tieGroup x = 2"
    and targets: "\<forall>x \<in> set tieGroup. occurrences (\<lambda>e. target_id (target e)) tieGroup x = 2"
    by (simp_all add: tieGroup_def occurrences_def exampleEvent_def)
  have first: "actor_id (actor e) = ''bob'' \<and> target_id (target e) = ''web''"
    if "tieGroup = [] @ e # post" for e post
    using that by (auto simp: tieGroup_def exampleEvent_def)
  from primary_actor_and_target_most_common [OF nonempty, of timestampCollation
      exampleGetTime "''episode-1''" CustomEpisode]
  obtain ep pre e post pre' e' post' where
    ep: "createEpisode timestampCollation exampleGetTime ''episode-1'' tieGroup CustomEpisode = Inr ep"
    and a: "tieGroup = pre @ e # post" "primary_actor ep = Some (actor e)"
      "\<forall>x \<in> set pre. occurrences (\<lambda>e. actor_id (actor e)) tieGroup x
          < occurrences (\<lambda>e. actor_id (actor e)) tieGroup e"
    and t: "tieGroup = pre' @ e' # post'" "primary_target ep = Some (target e')"
      "\<forall>x \<in> set pre'. occurrences (\<lambda>e. target_id (target e)) tieGroup x
          < occurrences (\<lambda>e. target_id (target e)) tieGroup e'"
    by blast
  have "pre = []"
  proof (rule ccontr)
    assume "pre \<noteq> []"
    then obtain x where "x \<in> set pre"
      by (cases pre) auto
    moreover have "set pre \<subseteq> set tieGroup" and "e \<in> set tieGroup"
      by (auto simp: a(1))
    ultimately show False
      using a(3) actors by fastforce
  qed
  moreover have "pre' = []"
  proof (rule ccontr)
    assume "pre' \<noteq> []"
    then obtain x where "x \<in> set pre'"
      by (cases pre') auto
    moreover have "set pre' \<subseteq> set tieGroup" and "e' \<in> set tieGroup"
      by (auto simp: t(1))
    ultimately show False
      using t(3) targets by fastforce
  qed
  ultimately have "actor_id (actor e) = ''bob''" and "target_id (target e') = ''web''"
    using first a(1) t(1) by blast+
  then show ?thesis
    using ep a(2) t(2) by simp
qed

end
